theory Spec2Isabelle
  imports Main "HOL-Library.Sublist" "HOL-Library.Multiset"
begin

section \<open>Strings as the merge engine and the tools use them\<close>

text \<open>
  Texts are \<open>string\<close>s: lists of code units, here the units below 256. The line feed is
  \<open>CHR 0x0A\<close>. \<open>split_lines\<close> is \<open>String.prototype.split("\n")\<close> (an empty text gives
  one empty line, a trailing line feed gives a last empty line; the result is never
  empty, so the first branch of the \<open>case\<close> is never taken), \<open>join\<close> is
  \<open>Array.prototype.join\<close>, \<open>startsWith\<close> and \<open>trim\<close> are the methods of the same name;
  \<open>trim\<close> strips the white space and line terminators of ECMAScript that exist in this
  range of code units.
\<close>

abbreviation NL :: char where
  "NL \<equiv> CHR 0x0A"

fun split_lines :: "string \<Rightarrow> string list" where
  "split_lines [] = [[]]"
| "split_lines (c # cs) =
     (if c = NL then [] # split_lines cs
      else (case split_lines cs of [] \<Rightarrow> [[c]] | l # ls \<Rightarrow> (c # l) # ls))"

fun join :: "string \<Rightarrow> string list \<Rightarrow> string" where
  "join sep [] = []"
| "join sep [x] = x"
| "join sep (x # y # ys) = x @ sep @ join sep (y # ys)"

definition startsWith :: "string \<Rightarrow> string \<Rightarrow> bool" where
  "startsWith s p \<longleftrightarrow> take (length p) s = p"

definition is_space :: "char \<Rightarrow> bool" where
  "is_space c \<longleftrightarrow>
     c = CHR 0x09 \<or> c = CHR 0x0A \<or> c = CHR 0x0B \<or> c = CHR 0x0C \<or> c = CHR 0x0D \<or>
     c = CHR 0x20 \<or> c = CHR 0xA0"

definition trim :: "string \<Rightarrow> string" where
  "trim s = rev (dropWhile is_space (rev (dropWhile is_space s)))"

section \<open>The merge engine: \<open>mergeInstructionFiles\<close>\<close>

text \<open>
  A line is a heading line when it starts with \<open>"## "\<close> or \<open>"### "\<close>.
  \<open>generatedHeaders\<close> is the set of the trimmed heading lines of the generated text.
\<close>

definition is_heading :: "string \<Rightarrow> bool" where
  "is_heading l \<longleftrightarrow> startsWith l ''## '' \<or> startsWith l ''### ''"

definition generatedHeaders :: "string list \<Rightarrow> string set" where
  "generatedHeaders generatedLines = set (map trim (filter is_heading generatedLines))"

text \<open>
  The three variables of the loop over the lines of the existing text, and one turn of
  that loop.
\<close>

record merge_state =
  customSections :: "string list"
  inCustomSection :: bool
  currentSection :: "string list"

definition merge_init :: merge_state where
  "merge_init = \<lparr>customSections = [], inCustomSection = False, currentSection = []\<rparr>"

definition merge_step :: "string set \<Rightarrow> merge_state \<Rightarrow> string \<Rightarrow> merge_state" where
  "merge_step G st line =
     (if is_heading line then
        (let secs = (if inCustomSection st \<and> currentSection st \<noteq> []
                     then customSections st @ [join [NL] (currentSection st)]
                     else customSections st);
             inC = (trim line \<notin> G)
         in \<lparr>customSections = secs, inCustomSection = inC,
             currentSection = (if inC then [line] else [])\<rparr>)
      else if inCustomSection st then st\<lparr>currentSection := currentSection st @ [line]\<rparr>
      else st)"

text \<open>The push after the loop, for a custom section that runs to the end of the text.\<close>

definition merge_flush :: "merge_state \<Rightarrow> string list" where
  "merge_flush st =
     (if inCustomSection st \<and> currentSection st \<noteq> []
      then customSections st @ [join [NL] (currentSection st)]
      else customSections st)"

definition collectCustomSections :: "string set \<Rightarrow> string list \<Rightarrow> string list" where
  "collectCustomSections G existingLines = merge_flush (foldl (merge_step G) merge_init existingLines)"

definition separator :: string where
  "separator = [NL, NL] @ ''<!-- Custom Sections (preserved from previous file) -->'' @ [NL, NL]"

definition mergeInstructionFiles :: "string \<Rightarrow> string \<Rightarrow> string" where
  "mergeInstructionFiles existing generated =
     (let existingLines = split_lines existing;
          generatedLines = split_lines generated;
          secs = collectCustomSections (generatedHeaders generatedLines) existingLines
      in if length secs > 0 then generated @ separator @ join [NL, NL] secs
         else generated)"

text \<open>
  The description of the result that the loop is compared with: the spans of a list of
  lines, each from a heading line to the line before the next heading line (of either
  level) or to the end; the lines before the first heading line are in no span. A span
  is custom when its trimmed heading line is not a generated header.
\<close>

function spans :: "string list \<Rightarrow> string list list" where
  "spans [] = []"
| "spans (l # ls) =
     (if is_heading l
      then (l # takeWhile (Not \<circ> is_heading) ls) # spans (dropWhile (Not \<circ> is_heading) ls)
      else spans ls)"
  by pat_completeness auto
termination
  by (relation "measure length") (auto simp: less_Suc_eq_le length_dropWhile_le)

definition custom_spans :: "string set \<Rightarrow> string list \<Rightarrow> string list list" where
  "custom_spans G ls = filter (\<lambda>s. trim (hd s) \<notin> G) (spans ls)"

text \<open>
  The span as the specification words it, for comparison with \<open>spans\<close>: from a heading
  line \<open>h\<close> over the lines \<open>ls\<close> that follow it, up to the next heading line whose level
  is equal to or higher than the level of \<open>h\<close> (as many or fewer \<open>#\<close> signs), or to the end.
\<close>

definition heading_level :: "string \<Rightarrow> nat" where
  "heading_level l = (if startsWith l ''## '' then 2 else if startsWith l ''### '' then 3 else 0)"

definition levelled_span :: "string \<Rightarrow> string list \<Rightarrow> string list" where
  "levelled_span h ls =
     h # takeWhile (\<lambda>x. \<not> (is_heading x \<and> heading_level x \<le> heading_level h)) ls"

section \<open>The render context and \<open>detectProjectContext\<close>\<close>

text \<open>
  Tags are strings (the tag type of the source is a union of string literals). The render
  context has the three fields every caller sets, the optional fields, and the further
  keys a caller may add (\<open>overrides\<close>), in the order given.
\<close>

record RenderContext =
  projectName :: string
  language :: string
  tags :: "string list"
  repoUrl :: "string option"
  framework :: "string option"
  domain :: "string option"
  sensitiveData :: "string option"
  overrides :: "(string \<times> string) list"

text \<open>
  What \<open>detectRepoUrl\<close> and the two framework detectors read from git and from the
  files of the project directory; each of them catches its own failures.
\<close>

record detect_env =
  detectRepoUrl :: "string \<Rightarrow> string"
  detectTypeScriptFramework :: "string \<Rightarrow> string option"
  detectPythonFramework :: "string \<Rightarrow> string option"

definition detectFramework :: "detect_env \<Rightarrow> string \<Rightarrow> string \<Rightarrow> string option" where
  "detectFramework env projectDir lang =
     (if lang = ''typescript'' then detectTypeScriptFramework env projectDir
      else if lang = ''python'' then detectPythonFramework env projectDir
      else None)"

definition sensitiveTags :: "string list" where
  "sensitiveTags = [''HEALTHCARE'', ''HIPAA'', ''FINTECH'', ''SOC2'']"

definition detectSensitiveData :: "string list \<Rightarrow> string" where
  "detectSensitiveData ts =
     (if list_ex (\<lambda>t. List.member sensitiveTags t) ts then ''YES'' else ''NO'')"

definition detectProjectContext ::
  "detect_env \<Rightarrow> string \<Rightarrow> string \<Rightarrow> string \<Rightarrow> string list \<Rightarrow> string option \<Rightarrow> RenderContext" where
  "detectProjectContext env projectDir pName lang ts description =
     \<lparr>projectName = pName,
      language = lang,
      tags = ts,
      repoUrl = Some (detectRepoUrl env projectDir),
      framework = detectFramework env projectDir lang,
      domain = description,
      sensitiveData = Some (detectSensitiveData ts),
      overrides = []\<rparr>"

section \<open>The tag list of the generation handlers\<close>

text \<open>
  \<open>generateInstructionsHandler\<close>, \<open>scaffoldProjectHandler\<close> and
  \<open>getDesignReferenceHandler\<close> begin alike: the tag list they work with is the caller's
  when it includes \<open>UNIVERSAL\<close>, and the caller's with \<open>UNIVERSAL\<close> put in front
  otherwise. None of them reads the caller's tag list again. What follows (loading the
  templates, composing, rendering, writing) is a parameter here, \<open>rest\<close>, of the tag
  list and the other arguments.
\<close>

definition handler_tags :: "string list \<Rightarrow> string list" where
  "handler_tags ts = (if List.member ts ''UNIVERSAL'' then ts else ''UNIVERSAL'' # ts)"

record generate_args =
  ga_tags :: "string list"
  ga_project_dir :: "string option"
  ga_project_name :: string
  ga_output_targets :: "string list"
  ga_merge_with_existing :: bool

definition generateInstructionsHandler ::
  "(string list \<Rightarrow> string option \<Rightarrow> string \<Rightarrow> string list \<Rightarrow> bool \<Rightarrow> 'r) \<Rightarrow> generate_args \<Rightarrow> 'r" where
  "generateInstructionsHandler rest a =
     (let ts = handler_tags (ga_tags a)
      in rest ts (ga_project_dir a) (ga_project_name a) (ga_output_targets a)
           (ga_merge_with_existing a))"

record scaffold_args =
  sa_tags :: "string list"
  sa_project_dir :: string
  sa_project_name :: string
  sa_language :: string
  sa_dry_run :: bool
  sa_force :: bool
  sa_output_targets :: "string list"

definition scaffoldProjectHandler ::
  "(string list \<Rightarrow> string \<Rightarrow> string \<Rightarrow> string \<Rightarrow> bool \<Rightarrow> bool \<Rightarrow> string list \<Rightarrow> 'r) \<Rightarrow> scaffold_args \<Rightarrow> 'r" where
  "scaffoldProjectHandler rest a =
     (let ts = handler_tags (sa_tags a)
      in rest ts (sa_project_dir a) (sa_project_name a) (sa_language a) (sa_dry_run a)
           (sa_force a) (sa_output_targets a))"

definition getDesignReferenceHandler :: "(string list \<Rightarrow> 'r) \<Rightarrow> string list \<Rightarrow> 'r" where
  "getDesignReferenceHandler rest args_tags = (let ts = handler_tags args_tags in rest ts)"

section \<open>MCP server discovery: \<open>DefaultMcpDiscoveryService\<close>\<close>

text \<open>
  A server entry as the templates and the remote registry give it, and a recommendation
  as \<open>entryToRecommendation\<close> builds it (the entry's tags become \<open>relevantTags\<close>). The
  fields of an entry carry the prefix \<open>entry_\<close> here, those of a recommendation have the
  names of the source. Of a tag's template set only \<open>mcpServers\<close> is read: \<open>None\<close> when
  the tag has no server file, else the \<open>servers\<close> of that file.
\<close>

record McpServerEntry =
  entry_name :: string
  entry_description :: string
  entry_command :: string
  entry_args :: "string list"
  entry_env :: "(string \<times> string) list option"
  entry_tags :: "string list"
  entry_category :: string
  entry_url :: "string option"
  entry_tier :: "string option"

record McpServerRecommendation =
  name :: string
  description :: string
  command :: string
  args :: "string list"
  env :: "(string \<times> string) list option"
  relevantTags :: "string list"
  category :: string
  url :: "string option"
  source :: string
  tier :: "string option"

record TagTemplateSet =
  mcpServers :: "McpServerEntry list option"

record McpDiscoveryOptions =
  includeRemote :: "bool option"
  remoteRegistryUrl :: "string option"
  remoteTimeoutMs :: "nat option"

definition entryToRecommendation :: "McpServerEntry \<Rightarrow> string \<Rightarrow> McpServerRecommendation" where
  "entryToRecommendation entry src =
     \<lparr>name = entry_name entry,
      description = entry_description entry,
      command = entry_command entry,
      args = entry_args entry,
      env = entry_env entry,
      relevantTags = entry_tags entry,
      category = entry_category entry,
      url = entry_url entry,
      source = src,
      tier = entry_tier entry\<rparr>"

text \<open>
  \<open>loadLocalServers\<close>: the loop over the tags and, inside it, the loop over the entries
  of a tag, with the set \<open>seen\<close> and the list \<open>results\<close> as the state.
\<close>

definition local_entry_step ::
  "string set \<times> McpServerRecommendation list \<Rightarrow> McpServerEntry
     \<Rightarrow> string set \<times> McpServerRecommendation list" where
  "local_entry_step st entry =
     (case st of (seen, results) \<Rightarrow>
        if entry_name entry \<in> seen then (seen, results)
        else (insert (entry_name entry) seen,
              results @ [entryToRecommendation entry ''built-in'']))"

definition local_tag_step ::
  "(string \<Rightarrow> TagTemplateSet option) \<Rightarrow> string set \<times> McpServerRecommendation list \<Rightarrow> string
     \<Rightarrow> string set \<times> McpServerRecommendation list" where
  "local_tag_step templates st tag =
     (case templates tag of
        None \<Rightarrow> st
      | Some templateSet \<Rightarrow>
          (case mcpServers templateSet of
             None \<Rightarrow> st
           | Some servers \<Rightarrow> foldl local_entry_step st servers))"

definition loadLocalServers ::
  "(string \<Rightarrow> TagTemplateSet option) \<Rightarrow> string list \<Rightarrow> McpServerRecommendation list" where
  "loadLocalServers templates ts = snd (foldl (local_tag_step templates) ({}, []) ts)"

text \<open>
  Time. The only waiting in \<open>discoverServers\<close> is at the two \<open>await\<close>s of
  \<open>fetchRemoteServers\<close>. An awaited call either never settles or settles after so many
  milliseconds with an outcome; everything else takes no time here.
\<close>

datatype 'a promise = Never | After nat 'a

text \<open>
  The remote registry. The status line and the headers of its answer arrive after some
  time or never (\<open>respondsAfterMs\<close>), unless the connection fails; the body of a response
  is complete some time after the headers, or never (the second argument of
  \<open>HttpResponse\<close>). Of the body the code reads whether it is JSON, and the \<open>servers\<close>
  array: \<open>BodyNull\<close> is the JSON value \<open>null\<close> (reading \<open>servers\<close> of it throws),
  \<open>BodyWithoutServers\<close> any other JSON value whose \<open>servers\<close> is no array; the entries of
  a \<open>servers\<close> array are taken at the type the source casts them to.
\<close>

datatype response_body =
  BodyNotJson | BodyNull | BodyWithoutServers | BodyServers "McpServerEntry list"

datatype http_reply = NetworkError string | HttpResponse nat "nat option" response_body

record remote_registry =
  respondsAfterMs :: "nat option"
  reply :: http_reply

text \<open>
  \<open>fetch\<close> is the call with the abort signal that the timer of \<open>timeoutMs\<close> fires: it
  settles when the headers have arrived, with the response, and is rejected when the
  connection fails or when the timer fires first. \<open>response_json\<close> is \<open>response.json()\<close>: it
  settles when the body is complete. The source has cleared the timer by then
  (\<open>clearTimeout\<close> follows the first \<open>await\<close>), so nothing ends this wait.
\<close>

datatype fetch_outcome = Rejected string | Response nat "nat option" response_body

definition fetch :: "remote_registry \<Rightarrow> nat \<Rightarrow> fetch_outcome promise" where
  "fetch reg timeoutMs =
     (case respondsAfterMs reg of
        None \<Rightarrow> After timeoutMs (Rejected ''AbortError'')
      | Some t \<Rightarrow>
          if timeoutMs \<le> t then After timeoutMs (Rejected ''AbortError'')
          else (case reply reg of
                  NetworkError m \<Rightarrow> After t (Rejected m)
                | HttpResponse status bodyAfterMs body \<Rightarrow> After t (Response status bodyAfterMs body)))"

definition response_json :: "nat option \<Rightarrow> response_body \<Rightarrow> response_body promise" where
  "response_json bodyAfterMs body =
     (case bodyAfterMs of None \<Rightarrow> Never | Some d \<Rightarrow> After d body)"

text \<open>
  The \<open>try\<close> block of \<open>fetchRemoteServers\<close>, with what it throws as a value: the two
  \<open>DiscoveryError\<close>s of the source (a status outside 200..299, no \<open>servers\<close> array) and
  any other error. \<open>read_servers\<close> is the part of the block after the body has been
  read. The \<open>catch\<close> block turns every error into the empty list.
\<close>

datatype fetch_error = DiscoveryError_status nat | DiscoveryError_servers | OtherError string

definition read_servers ::
  "string list \<Rightarrow> response_body \<Rightarrow> fetch_error + McpServerRecommendation list" where
  "read_servers ts body =
     (case body of
        BodyNotJson \<Rightarrow> Inl (OtherError ''SyntaxError'')
      | BodyNull \<Rightarrow> Inl (OtherError ''TypeError'')
      | BodyWithoutServers \<Rightarrow> Inl DiscoveryError_servers
      | BodyServers servers \<Rightarrow>
          Inr (map (\<lambda>entry. entryToRecommendation entry ''remote'')
                (filter (\<lambda>entry. list_ex (\<lambda>t. List.member ts t) (entry_tags entry)) servers)))"

definition fetchRemoteServers_try ::
  "remote_registry \<Rightarrow> string list \<Rightarrow> nat
     \<Rightarrow> (fetch_error + McpServerRecommendation list) promise" where
  "fetchRemoteServers_try reg ts timeoutMs =
     (case fetch reg timeoutMs of
        Never \<Rightarrow> Never
      | After t outcome \<Rightarrow>
          (case outcome of
             Rejected m \<Rightarrow> After t (Inl (OtherError m))
           | Response status bodyAfterMs body \<Rightarrow>
               if \<not> (200 \<le> status \<and> status \<le> 299)
               then After t (Inl (DiscoveryError_status status))
               else (case response_json bodyAfterMs body of
                       Never \<Rightarrow> Never
                     | After d data \<Rightarrow> After (t + d) (read_servers ts data))))"

definition fetchRemoteServers ::
  "remote_registry \<Rightarrow> string list \<Rightarrow> nat \<Rightarrow> McpServerRecommendation list promise" where
  "fetchRemoteServers reg ts timeoutMs =
     (case fetchRemoteServers_try reg ts timeoutMs of
        Never \<Rightarrow> Never
      | After t r \<Rightarrow> After t (case r of Inl err \<Rightarrow> [] | Inr servers \<Rightarrow> servers))"

text \<open>
  \<open>deduplicateServers\<close>: the two loops over the local and the remote list with the set
  \<open>seen\<close> and the list \<open>merged\<close>, then the sort. \<open>sort_by\<close> is the stable sort of
  \<open>Array.prototype.sort\<close> with a comparator; \<open>localeCompare\<close> of the platform is a
  parameter.
\<close>

definition dedup_step ::
  "string set \<times> McpServerRecommendation list \<Rightarrow> McpServerRecommendation
     \<Rightarrow> string set \<times> McpServerRecommendation list" where
  "dedup_step st server =
     (case st of (seen, merged) \<Rightarrow>
        if name server \<notin> seen then (insert (name server) seen, merged @ [server])
        else (seen, merged))"

fun insert_by :: "('a \<Rightarrow> 'a \<Rightarrow> int) \<Rightarrow> 'a \<Rightarrow> 'a list \<Rightarrow> 'a list" where
  "insert_by cmp x [] = [x]"
| "insert_by cmp x (y # ys) = (if cmp x y \<le> 0 then x # y # ys else y # insert_by cmp x ys)"

definition sort_by :: "('a \<Rightarrow> 'a \<Rightarrow> int) \<Rightarrow> 'a list \<Rightarrow> 'a list" where
  "sort_by cmp xs = foldr (insert_by cmp) xs []"

definition compareServers ::
  "(string \<Rightarrow> string \<Rightarrow> int) \<Rightarrow> McpServerRecommendation \<Rightarrow> McpServerRecommendation \<Rightarrow> int" where
  "compareServers localeCompare a b =
     (let tagDiff = int (length (relevantTags b)) - int (length (relevantTags a))
      in if tagDiff \<noteq> 0 then tagDiff else localeCompare (name a) (name b))"

definition deduplicateServers ::
  "(string \<Rightarrow> string \<Rightarrow> int) \<Rightarrow> McpServerRecommendation list \<Rightarrow> McpServerRecommendation list
     \<Rightarrow> McpServerRecommendation list" where
  "deduplicateServers localeCompare local remote =
     sort_by (compareServers localeCompare)
       (snd (foldl dedup_step (foldl dedup_step ({}, []) local) remote))"

text \<open>
  \<open>discoverServers\<close>. The environment holds the loaded templates, the default registry
  URL (empty when the environment variable is not set), the registry behind each URL and
  \<open>localeCompare\<close>. \<open>registryUrl\<close>, \<open>timeoutMs\<close> and \<open>remoteServers\<close> are the values of
  the source's variables of these names; \<open>remoteServers\<close> stays the empty list, with no
  waiting, when nothing is fetched. The result is what the returned promise does.
\<close>

record discovery_env =
  templates :: "string \<Rightarrow> TagTemplateSet option"
  DEFAULT_REMOTE_REGISTRY_URL :: string
  registry_at :: "string \<Rightarrow> remote_registry"
  localeCompare :: "string \<Rightarrow> string \<Rightarrow> int"

definition DEFAULT_REMOTE_TIMEOUT_MS :: nat where
  "DEFAULT_REMOTE_TIMEOUT_MS = 5000"

definition registryUrl :: "discovery_env \<Rightarrow> McpDiscoveryOptions \<Rightarrow> string" where
  "registryUrl denv opts =
     (case remoteRegistryUrl opts of Some u \<Rightarrow> u | None \<Rightarrow> DEFAULT_REMOTE_REGISTRY_URL denv)"

definition timeoutMs :: "McpDiscoveryOptions \<Rightarrow> nat" where
  "timeoutMs opts =
     (case remoteTimeoutMs opts of Some t \<Rightarrow> t | None \<Rightarrow> DEFAULT_REMOTE_TIMEOUT_MS)"

definition remoteServers ::
  "discovery_env \<Rightarrow> string list \<Rightarrow> McpDiscoveryOptions option
     \<Rightarrow> McpServerRecommendation list promise" where
  "remoteServers denv ts options =
     (case options of
        None \<Rightarrow> After 0 []
      | Some opts \<Rightarrow>
          if includeRemote opts = Some True then
            (if registryUrl denv opts \<noteq> []
             then fetchRemoteServers (registry_at denv (registryUrl denv opts)) ts (timeoutMs opts)
             else After 0 [])
          else After 0 [])"

definition discoverServers ::
  "discovery_env \<Rightarrow> string list \<Rightarrow> McpDiscoveryOptions option
     \<Rightarrow> McpServerRecommendation list promise" where
  "discoverServers denv ts options =
     (let localServers = loadLocalServers (templates denv) ts
      in case remoteServers denv ts options of
           Never \<Rightarrow> Never
         | After t remote \<Rightarrow> After t (deduplicateServers (localeCompare denv) localServers remote))"

text \<open>
  The remote failures: no answer within the timeout, a network error, a status outside
  200..299, a body that has arrived and is not JSON or has no \<open>servers\<close> array.
\<close>

definition remote_failure :: "remote_registry \<Rightarrow> nat \<Rightarrow> bool" where
  "remote_failure reg t \<longleftrightarrow>
     (case respondsAfterMs reg of
        None \<Rightarrow> True
      | Some d \<Rightarrow>
          t \<le> d \<or>
          (case reply reg of
             NetworkError m \<Rightarrow> True
           | HttpResponse status bodyAfterMs body \<Rightarrow>
               status < 200 \<or> 299 < status \<or>
               (bodyAfterMs \<noteq> None \<and> (case body of BodyServers servers \<Rightarrow> False | _ \<Rightarrow> True))))"

text \<open>
  The first entry of each name that is not in \<open>seen\<close>, in the order of the list: what a
  loop with \<open>dedup_step\<close> appends.
\<close>

fun first_of_name :: "string set \<Rightarrow> McpServerRecommendation list \<Rightarrow> McpServerRecommendation list" where
  "first_of_name seen [] = []"
| "first_of_name seen (x # xs) =
     (if name x \<in> seen then first_of_name seen xs
      else x # first_of_name (insert (name x) seen) xs)"

text \<open>
  What holds of \<open>seen\<close> and \<open>results\<close> throughout \<open>loadLocalServers\<close>: \<open>seen\<close> is the
  set of the names in \<open>results\<close>, no name is there twice, and every result is built in.
\<close>

definition local_inv :: "string set \<times> McpServerRecommendation list \<Rightarrow> bool" where
  "local_inv st \<longleftrightarrow>
     fst st = name ` set (snd st) \<and> distinct (map name (snd st)) \<and>
     list_all (\<lambda>r. source r = ''built-in'') (snd st)"

text \<open>
  Data of the discovery tests: the built-in \<open>forgecraft\<close> entry of the \<open>UNIVERSAL\<close>
  templates, the remote payload with an entry of the same name and one that only the
  registry has, and an environment around one registry. Its \<open>localeCompare\<close> orders
  names by length, which is enough to run the sort.
\<close>

definition test_entry :: "string \<Rightarrow> string \<Rightarrow> string list \<Rightarrow> string list \<Rightarrow> McpServerEntry" where
  "test_entry n d a ts =
     \<lparr>entry_name = n, entry_description = d, entry_command = ''npx'', entry_args = a,
      entry_env = None, entry_tags = ts, entry_category = ''general'', entry_url = None,
      entry_tier = None\<rparr>"

definition local_forgecraft :: McpServerEntry where
  "local_forgecraft = test_entry ''forgecraft'' ''Built in'' [''-y'', ''forgecraft-mcp''] [''UNIVERSAL'']"

definition remote_payload :: "McpServerEntry list" where
  "remote_payload =
     [test_entry ''forgecraft'' ''Remote version (should be skipped)''
        [''-y'', ''forgecraft-mcp-remote''] [''UNIVERSAL''],
      test_entry ''remote-only-server'' ''Only in remote'' [''-y'', ''remote-only''] [''UNIVERSAL'']]"

definition test_env :: "remote_registry \<Rightarrow> discovery_env" where
  "test_env reg =
     \<lparr>templates = (\<lambda>tag. if tag = ''UNIVERSAL''
                          then Some \<lparr>mcpServers = Some [local_forgecraft]\<rparr> else None),
      DEFAULT_REMOTE_REGISTRY_URL = [],
      registry_at = (\<lambda>u. reg),
      localeCompare = (\<lambda>a b. int (length a) - int (length b))\<rparr>"

definition test_options :: McpDiscoveryOptions where
  "test_options =
     \<lparr>includeRemote = Some True, remoteRegistryUrl = Some ''https://example.com/registry.json'',
      remoteTimeoutMs = None\<rparr>"

section \<open>The settings merge of \<open>configureMcpHandler\<close>\<close>

text \<open>
  JSON values as \<open>JSON.parse\<close> gives them. An object is the list of its keys and values
  in insertion order, each key once; the payload of a number is never read here. (Where
  a key is an array index, JavaScript lists it before the other keys; the lists here
  keep the order of insertion for such a key too, and the properties below read an
  object by its keys only, never by their order.) What
  the handler does to a value is written out for every kind of value, since the casts
  of the source check nothing: \<open>get_key v k\<close> is \<open>v[k]\<close> for a value other than \<open>null\<close>
  and one of the keys read here (\<open>None\<close> is \<open>undefined\<close>), \<open>nullish_or\<close> is \<open>??\<close>,
  \<open>iterate\<close> is the spread of a value into an array literal (\<open>None\<close> when the value is
  not iterable and the spread throws), \<open>own_props\<close> is what the spread of a value into an
  object literal copies, \<open>set_key\<close> writes one key of an object literal and \<open>spread\<close>
  copies a list of keys into it, later keys over earlier ones.
\<close>

datatype json =
  JNull | JBool bool | JNum int | JStr string | JArr "json list" | JObj "(string \<times> json) list"

definition get_key :: "json \<Rightarrow> string \<Rightarrow> json option" where
  "get_key v k = (case v of JObj kvs \<Rightarrow> map_of kvs k | _ \<Rightarrow> None)"

definition nullish_or :: "json option \<Rightarrow> json \<Rightarrow> json" where
  "nullish_or x d = (case x of None \<Rightarrow> d | Some JNull \<Rightarrow> d | Some v \<Rightarrow> v)"

definition iterate :: "json \<Rightarrow> json list option" where
  "iterate v =
     (case v of
        JArr xs \<Rightarrow> Some xs
      | JStr s \<Rightarrow> Some (map (\<lambda>c. JStr [c]) s)
      | _ \<Rightarrow> None)"

fun digit_char :: "nat \<Rightarrow> char" where
  "digit_char n = (''0123456789'' ! (n mod 10))"

fun decimal :: "nat \<Rightarrow> string" where
  "decimal n = (if n < 10 then [digit_char n] else decimal (n div 10) @ [digit_char n])"

definition own_props :: "json \<Rightarrow> (string \<times> json) list" where
  "own_props v =
     (case v of
        JObj kvs \<Rightarrow> kvs
      | JArr xs \<Rightarrow> zip (map decimal [0..<length xs]) xs
      | JStr s \<Rightarrow> zip (map decimal [0..<length s]) (map (\<lambda>c. JStr [c]) s)
      | _ \<Rightarrow> [])"

fun set_key :: "string \<Rightarrow> json \<Rightarrow> (string \<times> json) list \<Rightarrow> (string \<times> json) list" where
  "set_key k v [] = [(k, v)]"
| "set_key k v ((k', v') # kvs) =
     (if k' = k then (k, v) # kvs else (k', v') # set_key k v kvs)"

definition spread :: "(string \<times> json) list \<Rightarrow> (string \<times> json) list \<Rightarrow> (string \<times> json) list" where
  "spread obj props = foldl (\<lambda>acc kv. set_key (fst kv) (snd kv) acc) obj props"

text \<open>
  \<open>new Set(xs)\<close> spread back into an array: the first of each run of equal values, where
  equal is SameValueZero: by value for \<open>null\<close>, booleans, numbers and strings; an array
  or an object is equal to itself only, and each parsed one is a value of its own.
\<close>

definition same_value_zero :: "json \<Rightarrow> json \<Rightarrow> bool" where
  "same_value_zero a b =
     (case a of JArr xs \<Rightarrow> False | JObj kvs \<Rightarrow> False | _ \<Rightarrow> a = b)"

definition js_set :: "json list \<Rightarrow> json list" where
  "js_set xs = foldl (\<lambda>acc x. if list_ex (same_value_zero x) acc then acc else acc @ [x]) [] xs"

text \<open>
  The new settings, and the merge with the settings file. The file is absent, or not
  parseable, or parsed; \<open>merged_try\<close> is the \<open>try\<close> block (\<open>None\<close> when it throws: the
  parsed value is \<open>null\<close>, or the existing \<open>allow\<close> is not iterable), after which the
  new settings are written as they are.
\<close>

definition new_settings :: "(string \<times> json) list \<Rightarrow> string list \<Rightarrow> json" where
  "new_settings mcpConfig permissionRules =
     (if length permissionRules > 0
      then JObj [(''mcpServers'', JObj mcpConfig),
                 (''permissions'', JObj [(''allow'', JArr (map JStr permissionRules))])]
      else JObj [(''mcpServers'', JObj mcpConfig)])"

definition merged_try :: "json \<Rightarrow> (string \<times> json) list \<Rightarrow> string list \<Rightarrow> json option" where
  "merged_try existing mcpConfig permissionRules =
     (if existing = JNull then None
      else
        (let existingPerms = nullish_or (get_key existing ''permissions'') (JObj []);
             existingAllow = nullish_or (get_key existingPerms ''allow'') (JArr [])
         in case iterate existingAllow of
              None \<Rightarrow> None
            | Some allow \<Rightarrow>
                (let mergedAllow = js_set (allow @ map JStr permissionRules)
                 in Some (JObj
                      (set_key ''mcpServers''
                         (JObj (spread
                            (own_props (nullish_or (get_key existing ''mcpServers'') (JObj [])))
                            mcpConfig))
                         (set_key ''permissions''
                            (JObj (set_key ''allow'' (JArr mergedAllow) (own_props existingPerms)))
                            (own_props existing)))))))"

datatype settings_file = NoFile | Unparseable | Parsed json

definition merged_settings :: "settings_file \<Rightarrow> (string \<times> json) list \<Rightarrow> string list \<Rightarrow> json" where
  "merged_settings file mcpConfig permissionRules =
     (case file of
        NoFile \<Rightarrow> new_settings mcpConfig permissionRules
      | Unparseable \<Rightarrow> new_settings mcpConfig permissionRules
      | Parsed existing \<Rightarrow>
          (case merged_try existing mcpConfig permissionRules of
             None \<Rightarrow> new_settings mcpConfig permissionRules
           | Some merged \<Rightarrow> merged))"

text \<open>
  An existing settings record as the casts of the source take it: an object whose
  \<open>permissions\<close>, when there and not \<open>null\<close>, is an object whose \<open>allow\<close>, when there and
  not \<open>null\<close>, is an array of strings, and whose \<open>mcpServers\<close>, when there and not
  \<open>null\<close>, is an object. \<open>old_perms\<close>, \<open>old_allow\<close> and \<open>old_servers\<close> read the three
  parts of such a record, and are \<open>None\<close> for a value of another shape.
\<close>

definition json_strings :: "json list \<Rightarrow> string list option" where
  "json_strings xs =
     (if list_all (\<lambda>x. case x of JStr s \<Rightarrow> True | _ \<Rightarrow> False) xs
      then Some (map (\<lambda>x. case x of JStr s \<Rightarrow> s | _ \<Rightarrow> []) xs) else None)"

definition old_perms :: "json \<Rightarrow> (string \<times> json) list option" where
  "old_perms existing =
     (case get_key existing ''permissions'' of
        None \<Rightarrow> Some []
      | Some JNull \<Rightarrow> Some []
      | Some (JObj pk) \<Rightarrow> Some pk
      | _ \<Rightarrow> None)"

definition old_allow :: "json \<Rightarrow> string list option" where
  "old_allow existing =
     (case old_perms existing of
        None \<Rightarrow> None
      | Some pk \<Rightarrow>
          (case map_of pk ''allow'' of
             None \<Rightarrow> Some []
           | Some JNull \<Rightarrow> Some []
           | Some (JArr xs) \<Rightarrow> json_strings xs
           | _ \<Rightarrow> None))"

definition old_servers :: "json \<Rightarrow> (string \<times> json) list option" where
  "old_servers existing =
     (case get_key existing ''mcpServers'' of
        None \<Rightarrow> Some []
      | Some JNull \<Rightarrow> Some []
      | Some (JObj ms) \<Rightarrow> Some ms
      | _ \<Rightarrow> None)"

text \<open>
  A settings file with a key of the user's (\<open>theme\<close>), a \<open>deny\<close> list, two allowed
  rules and two servers, and new settings that configure \<open>forgecraft\<close> again and
  \<open>context7\<close> for the first time.
\<close>

definition test_existing_keys :: "(string \<times> json) list" where
  "test_existing_keys =
     [(''theme'', JStr ''dark''),
      (''permissions'',
         JObj [(''deny'', JArr [JStr ''Bash(rm:*)'']),
               (''allow'', JArr [JStr ''mcp__forgecraft__*'', JStr ''Read''])]),
      (''mcpServers'',
         JObj [(''forgecraft'', JObj [(''command'', JStr ''old'')]),
               (''mine'', JObj [(''command'', JStr ''my-server'')])])]"

definition test_mcpConfig :: "(string \<times> json) list" where
  "test_mcpConfig =
     [(''forgecraft'',
         JObj [(''command'', JStr ''npx''), (''args'', JArr [JStr ''-y'', JStr ''forgecraft-mcp''])]),
      (''context7'',
         JObj [(''command'', JStr ''npx''), (''args'', JArr [JStr ''-y'', JStr ''context7''])])]"

definition test_permissionRules :: "string list" where
  "test_permissionRules = [''mcp__forgecraft__*'', ''mcp__context7__*'']"

section \<open>The renderer: \<open>renderTemplate\<close>\<close>

text \<open>
  Modelled from the spec: \<open>src/registry/renderer.ts\<close> is not among the sources; only its
  tests and its callers are. What follows is section 4.3 of the specification
  (variable substitution and conditional blocks), with the details the tests of
  \<open>renderTemplate\<close> fix: the predicates \<open>language_is_typescript\<close> and
  \<open>language_is_python\<close>, the default written \<open>| default: value\<close>, and the tags rendered
  as a space-joined list of tag names in brackets and backquotes.
\<close>

definition char_code :: "char \<Rightarrow> nat" where
  "char_code c = of_char c"

definition is_upper :: "char \<Rightarrow> bool" where
  "is_upper c \<longleftrightarrow> 65 \<le> char_code c \<and> char_code c \<le> 90"

definition to_lower :: "char \<Rightarrow> char" where
  "to_lower c = (if is_upper c then char_of (char_code c + 32) else c)"

definition is_word_char :: "char \<Rightarrow> bool" where
  "is_word_char c \<longleftrightarrow>
     (48 \<le> char_code c \<and> char_code c \<le> 57) \<or> (65 \<le> char_code c \<and> char_code c \<le> 90) \<or>
     (97 \<le> char_code c \<and> char_code c \<le> 122) \<or> c = CHR ''_''"

definition is_name_char :: "char \<Rightarrow> bool" where
  "is_name_char c \<longleftrightarrow> is_word_char c \<or> c = CHR ''-''"

text \<open>
  Modelled from the spec: the values a placeholder name resolves to. Each field of the
  context is reachable by its native name and by its word-separated spellings (an upper
  case letter becomes a separator, underscore or hyphen, and the lower case letter).
\<close>

definition render_tags :: "string list \<Rightarrow> string" where
  "render_tags ts = join '' '' (map (\<lambda>t. [CHR 0x60] @ ''['' @ t @ '']'' @ [CHR 0x60]) ts)"

definition optional_field :: "string \<Rightarrow> string option \<Rightarrow> (string \<times> string) list" where
  "optional_field f v = (case v of None \<Rightarrow> [] | Some x \<Rightarrow> [(f, x)])"

definition context_fields :: "RenderContext \<Rightarrow> (string \<times> string) list" where
  "context_fields ctx =
     [(''projectName'', projectName ctx),
      (''language'', language ctx),
      (''tags'', render_tags (tags ctx))]
     @ optional_field ''repoUrl'' (repoUrl ctx)
     @ optional_field ''framework'' (framework ctx)
     @ optional_field ''domain'' (domain ctx)
     @ optional_field ''sensitiveData'' (sensitiveData ctx)
     @ overrides ctx"

definition separated :: "char \<Rightarrow> string \<Rightarrow> string" where
  "separated sep f = concat (map (\<lambda>c. if is_upper c then [sep, to_lower c] else [c]) f)"

definition variables :: "RenderContext \<Rightarrow> (string \<times> string) list" where
  "variables ctx =
     concat (map (\<lambda>fv. [(fst fv, snd fv),
                         (separated (CHR ''_'') (fst fv), snd fv),
                         (separated (CHR ''-'') (fst fv), snd fv)])
              (context_fields ctx))"

definition resolve :: "RenderContext \<Rightarrow> string \<Rightarrow> string option" where
  "resolve ctx nm = map_of (variables ctx) nm"

text \<open>
  Modelled from the spec: the text between \<open>{{\<close> and the next \<open>}}\<close>, and the reading of
  a placeholder from it: a name, then nothing or a bar and \<open>default:\<close> with a value; white
  space around the name and around the value is dropped.
\<close>

fun split_at_close :: "string \<Rightarrow> (string \<times> string) option" where
  "split_at_close (c # d # cs) =
     (if c = CHR ''}'' \<and> d = CHR ''}'' then Some ([], cs)
      else (case split_at_close (d # cs) of
              None \<Rightarrow> None
            | Some (body, rest) \<Rightarrow> Some (c # body, rest)))"
| "split_at_close cs = None"

definition parse_placeholder :: "string \<Rightarrow> (string \<times> string option) option" where
  "parse_placeholder body =
     (let nm = trim (takeWhile (\<lambda>c. c \<noteq> CHR ''|'') body);
          after = dropWhile (\<lambda>c. c \<noteq> CHR ''|'') body
      in if nm = [] \<or> \<not> list_all is_name_char nm then None
         else if after = [] then Some (nm, None)
         else (let d = trim (tl after)
               in if startsWith d ''default:'' then Some (nm, Some (trim (drop 8 d)))
                  else None))"

lemma split_at_close_shorter:
  "split_at_close s = Some (body, rest) \<Longrightarrow> length rest < length s"
  by (induction s arbitrary: body rule: split_at_close.induct)
     (auto split: if_splits option.splits)

text \<open>
  Modelled from the spec: variable substitution. A placeholder whose name resolves is
  replaced by the value, an unresolved one by its default when it has one, and is left
  as it is otherwise; what is put in is not read again. Double braces that hold no
  placeholder are text.
\<close>

function substitute :: "RenderContext \<Rightarrow> string \<Rightarrow> string" where
  "substitute ctx [] = []"
| "substitute ctx (c # cs) =
     (if startsWith (c # cs) ''{{'' then
        (case split_at_close (tl cs) of
           None \<Rightarrow> c # substitute ctx cs
         | Some (body, rest) \<Rightarrow>
             (case parse_placeholder body of
                None \<Rightarrow> c # substitute ctx cs
              | Some (nm, dflt) \<Rightarrow>
                  (case resolve ctx nm of
                     Some v \<Rightarrow> v @ substitute ctx rest
                   | None \<Rightarrow>
                       (case dflt of
                          Some d \<Rightarrow> d @ substitute ctx rest
                        | None \<Rightarrow> ''{{'' @ body @ ''}}'' @ substitute ctx rest))))
      else c # substitute ctx cs)"
  by pat_completeness auto
termination
  by (relation "measure (\<lambda>(ctx, s). length s)")
     (auto dest!: split_at_close_shorter)

text \<open>
  Modelled from the spec: conditional blocks. \<open>{{#if p}}\<close> opens a block and \<open>{{/if}}\<close>
  closes the innermost open one; the text of a block is kept when its predicate and
  those of the blocks around it are true, and the two markers are never kept. The
  \<open>stack\<close> holds the values of the predicates of the open blocks, and text is \<open>active\<close>
  when none of them is false. The predicate of an opening marker is whatever stands
  between \<open>{{#if\<close> and the next \<open>}}\<close>, without the white space around it: the known
  predicates compare the language, and any other text, the empty one too, is an unknown
  predicate and false.
\<close>

definition eval_predicate :: "RenderContext \<Rightarrow> string \<Rightarrow> bool" where
  "eval_predicate ctx p =
     (if p = ''language_is_typescript'' then language ctx = ''typescript''
      else if p = ''language_is_python'' then language ctx = ''python''
      else False)"

definition parse_if_open :: "string \<Rightarrow> (string \<times> string) option" where
  "parse_if_open s =
     (if startsWith s ''{{#if'' then
        (case split_at_close (drop 5 s) of
           None \<Rightarrow> None
         | Some (body, rest) \<Rightarrow>
             if body = [] \<or> is_space (hd body) then Some (trim body, rest) else None)
      else None)"

definition active :: "bool list \<Rightarrow> bool" where
  "active stack \<longleftrightarrow> \<not> List.member stack False"

lemma parse_if_open_shorter:
  "parse_if_open s = Some (p, rest) \<Longrightarrow> length rest < length s"
  by (auto simp: parse_if_open_def split: if_splits option.splits dest!: split_at_close_shorter)

text \<open>
  Modelled from the spec: the pass over the template that resolves the conditional
  blocks, from the stack of the blocks open so far. A closing marker with no block
  open is dropped like any other marker.
\<close>

function strip_conditionals :: "RenderContext \<Rightarrow> bool list \<Rightarrow> string \<Rightarrow> string" where
  "strip_conditionals ctx stack [] = []"
| "strip_conditionals ctx stack (c # cs) =
     (case parse_if_open (c # cs) of
        Some (p, rest) \<Rightarrow> strip_conditionals ctx (eval_predicate ctx p # stack) rest
      | None \<Rightarrow>
          if startsWith (c # cs) ''{{/if}}''
          then strip_conditionals ctx (case stack of [] \<Rightarrow> [] | b # bs \<Rightarrow> bs) (drop 7 (c # cs))
          else (if active stack then [c] else []) @ strip_conditionals ctx stack cs)"
  by pat_completeness auto
termination
  by (relation "measure (\<lambda>(ctx, stack, s). length s)")
     (auto dest: parse_if_open_shorter)

text \<open>
  Modelled from the spec: \<open>renderTemplate\<close> resolves the conditional blocks, then
  substitutes the placeholders of what is left.
\<close>

definition renderTemplate :: "string \<Rightarrow> RenderContext \<Rightarrow> string" where
  "renderTemplate template ctx = substitute ctx (strip_conditionals ctx [] template)"

text \<open>
  A text with no beginning of a conditional marker in it: nowhere two opening braces
  followed by \<open>#\<close> or \<open>/\<close>.
\<close>

fun no_marker :: "string \<Rightarrow> bool" where
  "no_marker (a # b # c # cs) =
     (\<not> (a = CHR ''{'' \<and> b = CHR ''{'' \<and> (c = CHR ''#'' \<or> c = CHR ''/'')) \<and> no_marker (b # c # cs))"
| "no_marker cs = True"

text \<open>The context of the renderer's tests.\<close>

definition makeContext :: RenderContext where
  "makeContext =
     \<lparr>projectName = ''TestProject'', language = ''typescript'', tags = [''UNIVERSAL'', ''API''],
      repoUrl = None, framework = None, domain = None, sensitiveData = None, overrides = []\<rparr>"

section \<open>Properties of the merge engine\<close>

lemma spans_dropWhile: "spans (dropWhile (Not \<circ> is_heading) ls) = spans ls"
  by (induction ls) auto

lemma custom_spans_dropWhile:
  "custom_spans G (dropWhile (Not \<circ> is_heading) ls) = custom_spans G ls"
  by (simp add: custom_spans_def spans_dropWhile)

lemma custom_spans_Cons:
  "custom_spans G (l # ls) =
     (if is_heading l
      then (if trim l \<notin> G then [l # takeWhile (Not \<circ> is_heading) ls] else []) @ custom_spans G ls
      else custom_spans G ls)"
  by (simp add: custom_spans_def spans_dropWhile)


lemma merge_loop_spans:
  "inCustomSection st \<longleftrightarrow> currentSection st \<noteq> [] \<Longrightarrow>
   merge_flush (foldl (merge_step G) st ls) =
     customSections st
     @ (if inCustomSection st
        then [join [NL] (currentSection st @ takeWhile (Not \<circ> is_heading) ls)] else [])
     @ map (join [NL]) (custom_spans G ls)"
proof (induction ls arbitrary: st)
  case Nil
  then show ?case by (simp add: merge_flush_def custom_spans_def)
next
  case (Cons l ls)
  show ?case
  proof (cases "is_heading l")
    case True
    define st' where "st' = merge_step G st l"
    have f: "customSections st' = customSections st @ (if inCustomSection st then [join [NL] (currentSection st)] else [])"
      "inCustomSection st' = (trim l \<notin> G)"
      "currentSection st' = (if trim l \<notin> G then [l] else [])"
      using True Cons.prems by (auto simp: st'_def merge_step_def Let_def)
    have inv: "inCustomSection st' \<longleftrightarrow> currentSection st' \<noteq> []"
      by (simp add: f)
    have "merge_flush (foldl (merge_step G) st (l # ls)) = merge_flush (foldl (merge_step G) st' ls)"
      by (simp add: st'_def)
    also note Cons.IH [OF inv]
    finally show ?thesis
      using True by (simp add: f custom_spans_Cons)
  next
    case False
    define st' where "st' = merge_step G st l"
    have f: "customSections st' = customSections st"
      "inCustomSection st' = inCustomSection st"
      "currentSection st' = (if inCustomSection st then currentSection st @ [l] else currentSection st)"
      using False by (auto simp: st'_def merge_step_def)
    have inv: "inCustomSection st' \<longleftrightarrow> currentSection st' \<noteq> []"
      using Cons.prems by (simp add: f)
    have "merge_flush (foldl (merge_step G) st (l # ls)) = merge_flush (foldl (merge_step G) st' ls)"
      by (simp add: st'_def)
    also note Cons.IH [OF inv]
    finally show ?thesis
      using False by (simp add: f custom_spans_Cons)
  qed
qed

lemma collect_spans:
  "collectCustomSections G ls = map (join [NL]) (custom_spans G ls)"
  using merge_loop_spans [of merge_init G ls]
  by (simp add: collectCustomSections_def merge_init_def)

lemma heading_first:
  "rest = [] \<or> is_heading (hd rest) \<Longrightarrow>
   takeWhile (Not \<circ> is_heading) rest = [] \<and> dropWhile (Not \<circ> is_heading) rest = rest"
  by (cases rest) auto

lemma dropWhile_append_heading:
  "rest = [] \<or> is_heading (hd rest) \<Longrightarrow>
   dropWhile (Not \<circ> is_heading) (p @ rest) = dropWhile (Not \<circ> is_heading) p @ rest"
  using heading_first [of rest] by (induction p) auto

lemma takeWhile_append_heading:
  "rest = [] \<or> is_heading (hd rest) \<Longrightarrow>
   takeWhile (Not \<circ> is_heading) (p @ rest) = takeWhile (Not \<circ> is_heading) p"
  using heading_first [of rest] by (induction p) auto

lemma spans_append:
  "rest = [] \<or> is_heading (hd rest) \<Longrightarrow> spans (pre @ rest) = spans pre @ spans rest"
proof (induction pre rule: spans.induct)
  case 1
  then show ?case by simp
next
  case (2 l ls)
  then show ?case
    by (simp add: dropWhile_append_heading takeWhile_append_heading)
qed

lemma spans_heading_body:
  assumes "is_heading h" and "\<forall>x\<in>set body. \<not> is_heading x"
    and "rest = [] \<or> is_heading (hd rest)"
  shows "spans (h # body @ rest) = (h # body) # spans rest"
proof -
  have "takeWhile (Not \<circ> is_heading) body = body"
    using assms(2) by (simp add: takeWhile_eq_all_conv)
  moreover have "dropWhile (Not \<circ> is_heading) body = []"
    using assms(2) by simp
  ultimately show ?thesis
    using assms(1,3) heading_first [of rest]
    by (simp add: dropWhile_append_heading takeWhile_append_heading)
qed

lemma heading_in_spans:
  "l \<in> set ls \<Longrightarrow> is_heading l \<Longrightarrow> l \<in> hd ` set (spans ls)"
proof (induction ls rule: spans.induct)
  case 1
  then show ?case by simp
next
  case (2 x xs)
  show ?case
  proof (cases "l = x")
    case True
    then show ?thesis using 2 by simp
  next
    case False
    then have mem: "l \<in> set xs" using 2 by simp
    have "l \<notin> set (takeWhile (Not \<circ> is_heading) xs)"
      using "2.prems"(2) by (auto dest: set_takeWhileD)
    then have "l \<in> set (dropWhile (Not \<circ> is_heading) xs)"
      using mem by (metis Un_iff set_append takeWhile_dropWhile_id)
    then show ?thesis
      using 2 mem by (cases "is_heading x") auto
  qed
qed

lemma concat_spans: "concat (spans ls) = dropWhile (Not \<circ> is_heading) ls"
  by (induction ls rule: spans.induct) (simp_all add: comp_def)

lemma spans_shape:
  "s \<in> set (spans ls) \<Longrightarrow> s \<noteq> [] \<and> is_heading (hd s) \<and> (\<forall>x\<in>set (tl s). \<not> is_heading x)"
proof (induction ls rule: spans.induct)
  case 1
  then show ?case by simp
next
  case (2 l ls)
  show ?case
  proof (cases "is_heading l")
    case True
    then consider "s = l # takeWhile (Not \<circ> is_heading) ls"
      | "s \<in> set (spans (dropWhile (Not \<circ> is_heading) ls))"
      using "2.prems" by auto
    then show ?thesis
    proof cases
      case 1
      have "\<not> is_heading x" if "x \<in> set (takeWhile (Not \<circ> is_heading) ls)" for x
        using set_takeWhileD [OF that] by simp
      then show ?thesis using 1 True by simp
    next
      case 2
      then show ?thesis using "2.IH"(1) [OF True] by simp
    qed
  next
    case False
    then have "s \<in> set (spans ls)" using "2.prems" by simp
    then show ?thesis by (rule "2.IH"(2) [OF False])
  qed
qed

lemma spans_subset: "s \<in> set (spans ls) \<Longrightarrow> x \<in> set s \<Longrightarrow> x \<in> set ls"
proof (induction ls rule: spans.induct)
  case 1
  then show ?case by simp
next
  case (2 l ls)
  show ?case
  proof (cases "is_heading l")
    case True
    then consider "s = l # takeWhile (Not \<circ> is_heading) ls"
      | "s \<in> set (spans (dropWhile (Not \<circ> is_heading) ls))"
      using "2.prems"(1) by auto
    then show ?thesis
    proof cases
      case 1
      then show ?thesis
        using "2.prems"(2) set_takeWhileD [of x "Not \<circ> is_heading" ls] by auto
    next
      case 2
      then have "x \<in> set (dropWhile (Not \<circ> is_heading) ls)"
        using "2.IH"(1) [OF True] "2.prems"(2) by simp
      then show ?thesis by (auto dest: set_dropWhileD)
    qed
  next
    case False
    then have "s \<in> set (spans ls)" using "2.prems"(1) by simp
    then have "x \<in> set ls" using "2.prems"(2) by (rule "2.IH"(2) [OF False])
    then show ?thesis by simp
  qed
qed

lemma custom_spans_empty:
  assumes "\<forall>l\<in>set ls. is_heading l \<longrightarrow> trim l \<in> G"
  shows "custom_spans G ls = []"
proof -
  have "trim (hd s) \<in> G" if "s \<in> set (spans ls)" for s
  proof -
    have "s \<noteq> []" and h: "is_heading (hd s)"
      using spans_shape [OF that] by simp_all
    then have "hd s \<in> set ls"
      using spans_subset [OF that] by simp
    then show ?thesis using assms h by blast
  qed
  then show ?thesis by (simp add: custom_spans_def)
qed

text \<open>
  Claim C1. When the existing text has a heading line (second or third level) whose
  trimmed form is not among the trimmed heading lines of the generated text, the result
  of \<open>mergeInstructionFiles\<close> is the generated text, then the separator (a comment line
  between two blank lines), then the custom sections joined by a blank line, in their
  order in the existing text; each custom section is its heading line and the lines
  after it up to the next heading line, joined by line feeds.
\<close>

theorem merge_appends_custom_sections:
  assumes "\<exists>l\<in>set (split_lines existing).
             is_heading l \<and> trim l \<notin> generatedHeaders (split_lines generated)"
  shows "mergeInstructionFiles existing generated =
           generated @ separator @
           join [NL, NL] (map (join [NL])
             (custom_spans (generatedHeaders (split_lines generated)) (split_lines existing)))"
proof -
  let ?G = "generatedHeaders (split_lines generated)"
  from assms obtain l where l: "l \<in> set (split_lines existing)" "is_heading l" "trim l \<notin> ?G"
    by blast
  then obtain s where s: "s \<in> set (spans (split_lines existing))" "hd s = l"
    using heading_in_spans by blast
  then have "s \<in> set (custom_spans ?G (split_lines existing))"
    using l(3) by (simp add: custom_spans_def)
  then have "custom_spans ?G (split_lines existing) \<noteq> []"
    by auto
  then show ?thesis
    by (simp add: mergeInstructionFiles_def collect_spans)
qed

theorem merge_appends_custom_sections_witness:
  "(\<exists>l\<in>set (split_lines (join [NL] [''## Code Standards'', ''Generated content'', [],
         ''## My Custom Rules'', ''Do not use var.'', ''Always use strict mode.''])).
      is_heading l \<and>
      trim l \<notin> generatedHeaders
        (split_lines (join [NL] [''## Code Standards'', ''Updated generated content''])))
   \<and> mergeInstructionFiles
        (join [NL] [''## Code Standards'', ''Generated content'', [],
           ''## My Custom Rules'', ''Do not use var.'', ''Always use strict mode.''])
        (join [NL] [''## Code Standards'', ''Updated generated content''])
      = join [NL] [''## Code Standards'', ''Updated generated content'', [],
           ''<!-- Custom Sections (preserved from previous file) -->'', [],
           ''## My Custom Rules'', ''Do not use var.'', ''Always use strict mode.'']"
  (is "?H \<and> ?lhs = ?rhs")
proof -
  have h: ?H by code_simp
  have v: "join [NL] [''## Code Standards'', ''Updated generated content''] @ separator @
           join [NL, NL] (map (join [NL])
             (custom_spans
                (generatedHeaders
                   (split_lines (join [NL] [''## Code Standards'', ''Updated generated content''])))
                (split_lines (join [NL] [''## Code Standards'', ''Generated content'', [],
                   ''## My Custom Rules'', ''Do not use var.'', ''Always use strict mode.''])))) = ?rhs"
    by code_simp
  from merge_appends_custom_sections [OF h] v have "?lhs = ?rhs" by (rule trans)
  with h show ?thesis by (rule conjI)
qed

text \<open>
  Claim C2. When every heading line of the existing text, trimmed, is among the trimmed
  heading lines of the generated text, \<open>mergeInstructionFiles\<close> returns the generated
  text itself, with no separator; and merging a text with itself returns it unchanged.
\<close>

theorem merge_without_custom_sections:
  "((\<forall>l\<in>set (split_lines existing).
       is_heading l \<longrightarrow> trim l \<in> generatedHeaders (split_lines generated))
     \<longrightarrow> mergeInstructionFiles existing generated = generated)
   \<and> mergeInstructionFiles generated generated = generated"
proof -
  have "mergeInstructionFiles e g = g"
    if "\<forall>l\<in>set (split_lines e). is_heading l \<longrightarrow> trim l \<in> generatedHeaders (split_lines g)"
    for e g
    using custom_spans_empty [OF that]
    by (simp add: mergeInstructionFiles_def collect_spans)
  moreover have "\<forall>l\<in>set (split_lines generated).
       is_heading l \<longrightarrow> trim l \<in> generatedHeaders (split_lines generated)"
    by (simp add: generatedHeaders_def)
  ultimately show ?thesis by simp
qed

theorem merge_without_custom_sections_witness:
  "mergeInstructionFiles
        (join [NL] [''## Code Standards'', ''Old'', [], ''## Testing'', ''Old tests''])
        (join [NL] [''## Code Standards'', ''New'', [], ''## Testing '', ''New tests''])
      = join [NL] [''## Code Standards'', ''New'', [], ''## Testing '', ''New tests'']
   \<and> mergeInstructionFiles
        (join [NL] [''## Code Standards'', ''New'', [], ''## Testing '', ''New tests''])
        (join [NL] [''## Code Standards'', ''New'', [], ''## Testing '', ''New tests''])
      = join [NL] [''## Code Standards'', ''New'', [], ''## Testing '', ''New tests'']"
  (is "?A \<and> ?B")
proof -
  have h: "(\<forall>l\<in>set (split_lines (join [NL] [''## Code Standards'', ''Old'', [], ''## Testing'', ''Old tests''])).
      is_heading l \<longrightarrow>
      trim l \<in> generatedHeaders
        (split_lines (join [NL] [''## Code Standards'', ''New'', [], ''## Testing '', ''New tests''])))"
    (is ?H) by code_simp
  from merge_without_custom_sections
    [of "join [NL] [''## Code Standards'', ''Old'', [], ''## Testing'', ''Old tests'']"
        "join [NL] [''## Code Standards'', ''New'', [], ''## Testing '', ''New tests'']"]
  have "(?H \<longrightarrow> ?A) \<and> ?B" .
  with h show ?thesis by blast
qed

text \<open>
  Claim C3, as the code has it. A span begins at a heading line of the second or third
  level and runs up to the next heading line of either level, or to the end of the text:
  for lines \<open>pre @ h # body @ rest\<close> where \<open>h\<close> is a heading line, \<open>body\<close> has no heading
  line and \<open>rest\<close> is empty or begins with a heading line, the loop collects what it
  collects from \<open>pre\<close>, then \<open>h\<close> with \<open>body\<close> exactly when the trimmed \<open>h\<close> is not a
  generated header, then what it collects from \<open>rest\<close>. A third-level heading line after
  a custom second-level heading therefore opens a span of its own, kept or dropped by
  its own trimmed heading line; the generated text matters only through its set of
  trimmed heading lines.
\<close>

theorem span_ends_at_next_heading:
  assumes "is_heading h" and "\<forall>x\<in>set body. \<not> is_heading x"
    and "rest = [] \<or> is_heading (hd rest)"
  shows "collectCustomSections G (pre @ h # body @ rest) =
           collectCustomSections G pre
           @ (if trim h \<notin> G then [join [NL] (h # body)] else [])
           @ collectCustomSections G rest"
proof -
  have "spans (pre @ h # body @ rest) = spans pre @ spans (h # body @ rest)"
    using assms(1) by (intro spans_append) simp
  then have "spans (pre @ h # body @ rest) = spans pre @ (h # body) # spans rest"
    by (simp only: spans_heading_body [OF assms])
  then show ?thesis
    by (simp add: collect_spans custom_spans_def)
qed

theorem span_ends_at_next_heading_witness:
  "is_heading ''## Custom''
   \<and> ([''### Sub'', ''subbody''] = [] \<or> is_heading (hd [''### Sub'', ''subbody'']))
   \<and> collectCustomSections (generatedHeaders [''## Gen'', ''### Sub'', ''x''])
         ([''# Title'', ''intro''] @ ''## Custom'' # [''body''] @ [''### Sub'', ''subbody''])
       = [join [NL] [''## Custom'', ''body'']]"
  (is "?H1 \<and> ?H3 \<and> ?lhs = ?rhs")
proof -
  have h1: ?H1 by code_simp
  have h2: "\<forall>x\<in>set [''body'']. \<not> is_heading x" by code_simp
  have h3: ?H3 by code_simp
  have v: "collectCustomSections (generatedHeaders [''## Gen'', ''### Sub'', ''x'']) [''# Title'', ''intro'']
           @ (if trim ''## Custom'' \<notin> generatedHeaders [''## Gen'', ''### Sub'', ''x'']
              then [join [NL] (''## Custom'' # [''body''])] else [])
           @ collectCustomSections (generatedHeaders [''## Gen'', ''### Sub'', ''x''])
               [''### Sub'', ''subbody''] = ?rhs"
    by code_simp
  from span_ends_at_next_heading [OF h1 h2 h3] v have "?lhs = ?rhs" by (rule trans)
  with h1 h3 show ?thesis by blast
qed

text \<open>
  Claim C3 as stated fails: the custom section \<open>## Custom\<close> below has the sub-heading
  \<open>### Sub\<close>, which the generated text has too. The span of the specification holds all
  four lines; the loop closes the custom section at \<open>### Sub\<close> and drops that line and
  its body, so the merged text ends with \<open>## Custom\<close> and \<open>body\<close>.
\<close>

theorem levelled_span_counterexample:
  "levelled_span ''## Custom'' [''body'', ''### Sub'', ''subbody'']
     = [''## Custom'', ''body'', ''### Sub'', ''subbody'']
   \<and> join [NL] (levelled_span ''## Custom'' [''body'', ''### Sub'', ''subbody''])
       \<notin> set (collectCustomSections (generatedHeaders [''## Gen'', ''### Sub'', ''x''])
                [''## Custom'', ''body'', ''### Sub'', ''subbody''])
   \<and> mergeInstructionFiles
        (join [NL] [''## Custom'', ''body'', ''### Sub'', ''subbody''])
        (join [NL] [''## Gen'', ''### Sub'', ''x''])
      = join [NL] [''## Gen'', ''### Sub'', ''x'', [],
           ''<!-- Custom Sections (preserved from previous file) -->'', [],
           ''## Custom'', ''body'']"
  by code_simp

section \<open>Properties of the context detector and of the handlers' tag list\<close>

text \<open>
  Claim C10. The \<open>sensitiveData\<close> field that \<open>detectProjectContext\<close> sets is \<open>YES\<close>
  exactly when the tag list has one of \<open>HEALTHCARE\<close>, \<open>HIPAA\<close>, \<open>FINTECH\<close>, \<open>SOC2\<close>, and
  \<open>NO\<close> exactly when it has none of them, whatever the project directory holds.
\<close>

theorem sensitive_data_flag:
  "(sensitiveData (detectProjectContext fs projectDir pName lang ts descr) = Some ''YES''
      \<longleftrightarrow> set ts \<inter> {''HEALTHCARE'', ''HIPAA'', ''FINTECH'', ''SOC2''} \<noteq> {})
   \<and> (sensitiveData (detectProjectContext fs projectDir pName lang ts descr) = Some ''NO''
      \<longleftrightarrow> set ts \<inter> {''HEALTHCARE'', ''HIPAA'', ''FINTECH'', ''SOC2''} = {})"
proof -
  have "list_ex (\<lambda>t. List.member sensitiveTags t) ts
          \<longleftrightarrow> set ts \<inter> {''HEALTHCARE'', ''HIPAA'', ''FINTECH'', ''SOC2''} \<noteq> {}"
    by (auto simp: list_ex_iff sensitiveTags_def)
  then show ?thesis
    by (simp add: detectProjectContext_def detectSensitiveData_def)
qed

text \<open>
  Claim C8. For a tag \<open>X\<close> other than \<open>UNIVERSAL\<close>, each of the three handlers hands
  the tag list \<open>[UNIVERSAL, X]\<close> to the rest of the pipeline, with the caller's other
  arguments, both when the caller gives \<open>[X]\<close> and when the caller gives
  \<open>[UNIVERSAL, X]\<close>: the universal tag is there when the caller omits it and is there
  once when the caller writes it. So the two calls give the same result, whatever the
  rest of the pipeline does with the tag list. For any tag list of the caller, the list
  handed on has \<open>UNIVERSAL\<close> and the caller's tags and nothing else, and is the caller's
  own list when that has \<open>UNIVERSAL\<close>.
\<close>

theorem universal_tag_always_present:
  assumes "X \<noteq> ''UNIVERSAL''"
  shows "generateInstructionsHandler rest (a\<lparr>ga_tags := [X]\<rparr>)
           = rest [''UNIVERSAL'', X] (ga_project_dir a) (ga_project_name a) (ga_output_targets a)
               (ga_merge_with_existing a)
         \<and> generateInstructionsHandler rest (a\<lparr>ga_tags := [''UNIVERSAL'', X]\<rparr>)
           = rest [''UNIVERSAL'', X] (ga_project_dir a) (ga_project_name a) (ga_output_targets a)
               (ga_merge_with_existing a)
         \<and> scaffoldProjectHandler rest' (b\<lparr>sa_tags := [X]\<rparr>)
           = rest' [''UNIVERSAL'', X] (sa_project_dir b) (sa_project_name b) (sa_language b)
               (sa_dry_run b) (sa_force b) (sa_output_targets b)
         \<and> scaffoldProjectHandler rest' (b\<lparr>sa_tags := [''UNIVERSAL'', X]\<rparr>)
           = rest' [''UNIVERSAL'', X] (sa_project_dir b) (sa_project_name b) (sa_language b)
               (sa_dry_run b) (sa_force b) (sa_output_targets b)
         \<and> getDesignReferenceHandler rest'' [X] = rest'' [''UNIVERSAL'', X]
         \<and> getDesignReferenceHandler rest'' [''UNIVERSAL'', X] = rest'' [''UNIVERSAL'', X]
         \<and> generateInstructionsHandler rest (a\<lparr>ga_tags := [X]\<rparr>)
           = generateInstructionsHandler rest (a\<lparr>ga_tags := [''UNIVERSAL'', X]\<rparr>)
         \<and> scaffoldProjectHandler rest' (b\<lparr>sa_tags := [X]\<rparr>)
           = scaffoldProjectHandler rest' (b\<lparr>sa_tags := [''UNIVERSAL'', X]\<rparr>)
         \<and> getDesignReferenceHandler rest'' [X]
           = getDesignReferenceHandler rest'' [''UNIVERSAL'', X]
         \<and> set (generateInstructionsHandler (\<lambda>ts dir n targets m. ts) (a\<lparr>ga_tags := given\<rparr>))
           = insert ''UNIVERSAL'' (set given)
         \<and> set (scaffoldProjectHandler (\<lambda>ts dir n l d f targets. ts) (b\<lparr>sa_tags := given\<rparr>))
           = insert ''UNIVERSAL'' (set given)
         \<and> set (getDesignReferenceHandler (\<lambda>ts. ts) given) = insert ''UNIVERSAL'' (set given)
         \<and> (''UNIVERSAL'' \<in> set given \<longrightarrow>
              generateInstructionsHandler (\<lambda>ts dir n targets m. ts) (a\<lparr>ga_tags := given\<rparr>) = given
              \<and> scaffoldProjectHandler (\<lambda>ts dir n l d f targets. ts) (b\<lparr>sa_tags := given\<rparr>) = given
              \<and> getDesignReferenceHandler (\<lambda>ts. ts) given = given)"
proof -
  have m: "List.member ts t \<longleftrightarrow> t \<in> set ts" for ts :: "string list" and t
    by (induction ts) auto
  have h1: "handler_tags [X] = [''UNIVERSAL'', X]"
    using assms by (simp add: handler_tags_def)
  have h2: "handler_tags [''UNIVERSAL'', X] = [''UNIVERSAL'', X]"
    by (simp add: handler_tags_def)
  have s: "set (handler_tags given) = insert ''UNIVERSAL'' (set given)"
    by (auto simp: handler_tags_def m)
  have k: "''UNIVERSAL'' \<in> set given \<longrightarrow> handler_tags given = given"
    by (simp add: handler_tags_def m)
  show ?thesis
    unfolding generateInstructionsHandler_def scaffoldProjectHandler_def
      getDesignReferenceHandler_def Let_def
    using h1 h2 s k by simp
qed

theorem universal_tag_always_present_witness:
  "generateInstructionsHandler (\<lambda>ts dir n targets m. (ts, dir, n, targets, m))
        \<lparr>ga_tags = [''API''], ga_project_dir = None, ga_project_name = ''My Project'',
         ga_output_targets = [''claude''], ga_merge_with_existing = True\<rparr>
      = ([''UNIVERSAL'', ''API''], None, ''My Project'', [''claude''], True)
   \<and> generateInstructionsHandler (\<lambda>ts dir n targets m. (ts, dir, n, targets, m))
        \<lparr>ga_tags = [''UNIVERSAL'', ''API''], ga_project_dir = None, ga_project_name = ''My Project'',
         ga_output_targets = [''claude''], ga_merge_with_existing = True\<rparr>
      = ([''UNIVERSAL'', ''API''], None, ''My Project'', [''claude''], True)
   \<and> scaffoldProjectHandler (\<lambda>ts dir n l d f targets. ts)
        \<lparr>sa_tags = [''API''], sa_project_dir = ''/p'', sa_project_name = ''My Project'',
         sa_language = ''typescript'', sa_dry_run = False, sa_force = False,
         sa_output_targets = [''claude'']\<rparr>
      = [''UNIVERSAL'', ''API'']
   \<and> scaffoldProjectHandler (\<lambda>ts dir n l d f targets. ts)
        \<lparr>sa_tags = [''UNIVERSAL'', ''API''], sa_project_dir = ''/p'', sa_project_name = ''My Project'',
         sa_language = ''typescript'', sa_dry_run = False, sa_force = False,
         sa_output_targets = [''claude'']\<rparr>
      = [''UNIVERSAL'', ''API'']
   \<and> getDesignReferenceHandler (\<lambda>ts. ts) [''API''] = [''UNIVERSAL'', ''API'']
   \<and> getDesignReferenceHandler (\<lambda>ts. ts) [''UNIVERSAL'', ''API''] = [''UNIVERSAL'', ''API'']
   \<and> getDesignReferenceHandler (\<lambda>ts. ts) [''API'', ''UNIVERSAL''] = [''API'', ''UNIVERSAL'']"
proof -
  have h: "''API'' \<noteq> ''UNIVERSAL''" by simp
  have g: "''UNIVERSAL'' \<in> set [''API'', ''UNIVERSAL'']" by simp
  note t = universal_tag_always_present [OF h,
      of "\<lambda>ts dir n targets m. (ts, dir, n, targets, m)"
         "\<lparr>ga_tags = [], ga_project_dir = None, ga_project_name = ''My Project'',
           ga_output_targets = [''claude''], ga_merge_with_existing = True\<rparr>"
         "\<lambda>ts dir n l d f targets. ts"
         "\<lparr>sa_tags = [], sa_project_dir = ''/p'', sa_project_name = ''My Project'',
           sa_language = ''typescript'', sa_dry_run = False, sa_force = False,
           sa_output_targets = [''claude'']\<rparr>"
         "\<lambda>ts. ts" "[''API'', ''UNIVERSAL'']"]
  from t g have "getDesignReferenceHandler (\<lambda>ts. ts) [''API'', ''UNIVERSAL''] = [''API'', ''UNIVERSAL'']"
    by blast
  with t show ?thesis by simp
qed

section \<open>Properties of the discovery service\<close>

lemma mset_insert_by: "mset (insert_by cmp x ys) = add_mset x (mset ys)"
  by (induction ys) auto

lemma mset_sort_by: "mset (sort_by cmp xs) = mset xs"
  by (induction xs) (auto simp: sort_by_def mset_insert_by)

lemma set_sort_by: "set (sort_by cmp xs) = set xs"
  using mset_sort_by [of cmp xs] by (metis set_mset_mset)

lemma distinct_names_sort_by:
  "distinct (map name (sort_by cmp xs)) = distinct (map name xs)"
proof -
  have "mset (map name (sort_by cmp xs)) = mset (map name xs)"
    by (simp add: mset_sort_by)
  then show ?thesis by (rule mset_eq_imp_distinct_iff)
qed

lemma foldl_dedup_step:
  "foldl dedup_step (seen, merged) xs = (seen \<union> name ` set xs, merged @ first_of_name seen xs)"
proof (induction xs arbitrary: seen merged)
  case Nil
  then show ?case by simp
next
  case (Cons x xs)
  show ?case
  proof (cases "name x \<in> seen")
    case True
    then have "dedup_step (seen, merged) x = (seen, merged)"
      by (simp add: dedup_step_def)
    then show ?thesis using True Cons.IH [of seen merged] by auto
  next
    case False
    then have "dedup_step (seen, merged) x = (insert (name x) seen, merged @ [x])"
      by (simp add: dedup_step_def)
    then show ?thesis using False Cons.IH [of "insert (name x) seen" "merged @ [x]"] by auto
  qed
qed

lemma first_of_name_append:
  "first_of_name seen (xs @ ys) = first_of_name seen xs @ first_of_name (seen \<union> name ` set xs) ys"
proof (induction xs arbitrary: seen)
  case Nil
  then show ?case by simp
next
  case (Cons x xs)
  show ?case
  proof (cases "name x \<in> seen")
    case True
    then have "seen \<union> name ` set (x # xs) = seen \<union> name ` set xs" by auto
    then show ?thesis using True Cons.IH [of seen] by simp
  next
    case False
    have "seen \<union> name ` set (x # xs) = insert (name x) seen \<union> name ` set xs" by auto
    then show ?thesis using False Cons.IH [of "insert (name x) seen"] by simp
  qed
qed

lemma names_first_of_name:
  "name ` set (first_of_name seen xs) = name ` set xs - seen"
  by (induction xs arbitrary: seen) auto

lemma set_first_of_name: "set (first_of_name seen xs) \<subseteq> set xs"
  by (induction xs arbitrary: seen) auto

lemma distinct_first_of_name: "distinct (map name (first_of_name seen xs))"
proof (induction xs arbitrary: seen)
  case Nil
  then show ?case by simp
next
  case (Cons x xs)
  have "name x \<notin> name ` set (first_of_name (insert (name x) seen) xs)"
    by (simp add: names_first_of_name)
  then show ?case using Cons.IH by simp
qed

lemma find_first_of_name:
  "r \<in> set (first_of_name seen xs) \<Longrightarrow> find (\<lambda>x. name x = name r) xs = Some r"
proof (induction xs arbitrary: seen)
  case Nil
  then show ?case by simp
next
  case (Cons x xs)
  show ?case
  proof (cases "name x \<in> seen")
    case True
    then have mem: "r \<in> set (first_of_name seen xs)" using Cons.prems by simp
    then have "name r \<in> name ` set xs - seen"
      using names_first_of_name [of seen xs] by blast
    then have "name x \<noteq> name r" using True by auto
    then show ?thesis using Cons.IH [OF mem] by simp
  next
    case False
    show ?thesis
    proof (cases "r = x")
      case True
      then show ?thesis by simp
    next
      case neq: False
      then have mem: "r \<in> set (first_of_name (insert (name x) seen) xs)"
        using Cons.prems False by simp
      then have "name r \<in> name ` set xs - insert (name x) seen"
        using names_first_of_name [of "insert (name x) seen" xs] by blast
      then have "name x \<noteq> name r" by auto
      then show ?thesis using Cons.IH [OF mem] by simp
    qed
  qed
qed

lemma first_of_name_distinct:
  "distinct (map name xs) \<Longrightarrow> name ` set xs \<inter> seen = {} \<Longrightarrow> first_of_name seen xs = xs"
  by (induction xs arbitrary: seen) auto

lemma dedup_loops:
  "snd (foldl dedup_step (foldl dedup_step ({}, []) local) remote) = first_of_name {} (local @ remote)"
  by (simp add: foldl_dedup_step first_of_name_append)

lemma deduplicateServers_eq:
  "deduplicateServers lc local remote
     = sort_by (compareServers lc) (first_of_name {} (local @ remote))"
  by (simp add: deduplicateServers_def dedup_loops)

lemma local_entry_step_inv: "local_inv st \<Longrightarrow> local_inv (local_entry_step st entry)"
  by (cases st) (auto simp: local_inv_def local_entry_step_def entryToRecommendation_def)

lemma foldl_local_entry_step_inv: "local_inv st \<Longrightarrow> local_inv (foldl local_entry_step st es)"
  by (induction es arbitrary: st) (simp_all add: local_entry_step_inv)

lemma local_tag_step_inv: "local_inv st \<Longrightarrow> local_inv (local_tag_step tpl st tag)"
  by (simp add: local_tag_step_def foldl_local_entry_step_inv split: option.splits)

lemma foldl_local_tag_step_inv: "local_inv st \<Longrightarrow> local_inv (foldl (local_tag_step tpl) st ts)"
  by (induction ts arbitrary: st) (simp_all add: local_tag_step_inv)

lemma loadLocalServers_inv:
  "distinct (map name (loadLocalServers tpl ts))
   \<and> list_all (\<lambda>r. source r = ''built-in'') (loadLocalServers tpl ts)"
proof -
  have "local_inv ({}, [])" by (simp add: local_inv_def)
  then have "local_inv (foldl (local_tag_step tpl) ({}, []) ts)"
    by (rule foldl_local_tag_step_inv)
  then show ?thesis by (simp add: local_inv_def loadLocalServers_def)
qed

lemma first_of_name_member:
  "r \<in> set xs \<Longrightarrow> name r \<notin> seen \<Longrightarrow> find (\<lambda>x. name x = name r) xs = Some r
     \<Longrightarrow> r \<in> set (first_of_name seen xs)"
proof (induction xs arbitrary: seen)
  case Nil
  then show ?case by simp
next
  case (Cons x xs)
  show ?case
  proof (cases "name x = name r")
    case True
    then have "r = x" using Cons.prems(3) by simp
    then show ?thesis using Cons.prems(2) by simp
  next
    case False
    then have f: "find (\<lambda>x. name x = name r) xs = Some r" using Cons.prems(3) by simp
    have m: "r \<in> set xs" using Cons.prems(1) False by auto
    have n: "name r \<notin> insert (name x) seen" using Cons.prems(2) False by auto
    show ?thesis
      using Cons.IH [OF m Cons.prems(2) f] Cons.IH [OF m n f] by simp
  qed
qed

lemma set_first_of_name_eq:
  "set (first_of_name {} xs) = {r \<in> set xs. find (\<lambda>x. name x = name r) xs = Some r}"
proof -
  have "r \<in> set (first_of_name {} xs)
          \<longleftrightarrow> r \<in> set xs \<and> find (\<lambda>x. name x = name r) xs = Some r" for r
    using first_of_name_member [of r xs "{}"] find_first_of_name [of r "{}" xs]
      set_first_of_name [of "{}" xs]
    by auto
  then show ?thesis by blast
qed

lemma find_append_Some: "find P xs = Some w \<Longrightarrow> find P (xs @ ys) = Some w"
  by (induction xs) (auto split: if_splits)

lemma find_distinct_names:
  "distinct (map name xs) \<Longrightarrow> r \<in> set xs \<Longrightarrow> find (\<lambda>x. name x = name r) xs = Some r"
  by (induction xs) (auto simp: image_iff)

lemma fetch_settles: "\<exists>t outcome. fetch reg T = After t outcome \<and> t \<le> T"
  by (auto simp: fetch_def split: option.splits http_reply.splits)

lemma read_servers_source:
  "read_servers ts data = Inr rs \<Longrightarrow> list_all (\<lambda>r. source r = ''remote'') rs"
  by (auto simp: read_servers_def entryToRecommendation_def list_all_iff
      split: response_body.splits)

lemma fetchRemoteServers_source:
  "fetchRemoteServers reg ts T = After w rs \<Longrightarrow> list_all (\<lambda>r. source r = ''remote'') rs"
  by (auto simp: fetchRemoteServers_def fetchRemoteServers_try_def response_json_def
      split: promise.splits fetch_outcome.splits if_splits option.splits sum.splits
      dest: read_servers_source)

lemma remoteServers_source:
  "remoteServers denv ts options = After w rs \<Longrightarrow> list_all (\<lambda>r. source r = ''remote'') rs"
  by (auto simp: remoteServers_def split: option.splits if_splits dest: fetchRemoteServers_source)

lemma discoverServers_After:
  "discoverServers denv ts options = After w res \<longleftrightarrow>
     (\<exists>rs. remoteServers denv ts options = After w rs
        \<and> res = deduplicateServers (localeCompare denv) (loadLocalServers (templates denv) ts) rs)"
  by (auto simp: discoverServers_def split: promise.splits)

text \<open>
  Claim C7. The list that \<open>deduplicateServers\<close> returns for any local and remote lists
  has no name twice and holds exactly the recommendations that are the first of their
  name in the local list followed by the remote list. So every name of either list is
  kept once, a local list without repeated names is kept whole, and the kept entry of a
  name that the local list has is a local entry: a local entry is kept over a remote
  entry of the same name. For \<open>discoverServers\<close>, at every tag list, options and state of
  the registry, when it returns: its result is that of \<open>deduplicateServers\<close> on the
  loaded local list and the fetched remote list, no name is there twice, every local
  recommendation is in it, a fetched recommendation whose name a local one has is not,
  and a recommendation whose name a local one has is that local one, of source
  \<open>built-in\<close>.
\<close>

theorem local_entries_win:
  "distinct (map name (deduplicateServers lc local remote))
   \<and> set (deduplicateServers lc local remote)
       = {r \<in> set (local @ remote). find (\<lambda>x. name x = name r) (local @ remote) = Some r}
   \<and> name ` set (deduplicateServers lc local remote) = name ` set local \<union> name ` set remote
   \<and> (\<forall>r\<in>set (deduplicateServers lc local remote).
         find (\<lambda>x. name x = name r) (local @ remote) = Some r)
   \<and> (distinct (map name local) \<longrightarrow> set local \<subseteq> set (deduplicateServers lc local remote))
   \<and> (\<forall>r\<in>set (deduplicateServers lc local remote).
         name r \<in> name ` set local \<longrightarrow> r \<in> set local)
   \<and> (discoverServers denv ts options = After w res
        \<and> remoteServers denv ts options = After w' fetched \<longrightarrow>
          res = deduplicateServers (localeCompare denv)
                  (loadLocalServers (templates denv) ts) fetched
          \<and> distinct (map name res)
          \<and> set (loadLocalServers (templates denv) ts) \<subseteq> set res
          \<and> (\<forall>r\<in>set fetched.
                name r \<in> name ` set (loadLocalServers (templates denv) ts) \<longrightarrow> r \<notin> set res)
          \<and> (\<forall>r\<in>set res.
                name r \<in> name ` set (loadLocalServers (templates denv) ts)
                \<longrightarrow> r \<in> set (loadLocalServers (templates denv) ts) \<and> source r = ''built-in'')
          \<and> name ` set res
              = name ` set (loadLocalServers (templates denv) ts) \<union> name ` set fetched)"
proof -
  have d: "distinct (map name (deduplicateServers c l r))" for c l r
    by (simp add: deduplicateServers_eq distinct_names_sort_by distinct_first_of_name)
  have s: "set (deduplicateServers c l r)
             = {y \<in> set (l @ r). find (\<lambda>x. name x = name y) (l @ r) = Some y}" for c l r
    by (simp only: deduplicateServers_eq set_sort_by set_first_of_name_eq)
  have n: "name ` set (deduplicateServers c l r) = name ` set l \<union> name ` set r" for c l r
    by (simp add: deduplicateServers_eq set_sort_by names_first_of_name image_Un)
  have f: "find (\<lambda>x. name x = name y) (l @ r) = Some y"
    if "y \<in> set (deduplicateServers c l r)" for c l r y
    using that s [of c l r] by blast
  have k: "set l \<subseteq> set (deduplicateServers c l r)" if dl: "distinct (map name l)" for c l r
  proof
    fix y assume y: "y \<in> set l"
    have "find (\<lambda>x. name x = name y) l = Some y"
      using dl y by (rule find_distinct_names)
    then have "find (\<lambda>x. name x = name y) (l @ r) = Some y"
      by (rule find_append_Some)
    then show "y \<in> set (deduplicateServers c l r)"
      using y s [of c l r] by simp
  qed
  have loc: "y \<in> set l" if "y \<in> set (deduplicateServers c l r)" "name y \<in> name ` set l"
    for c l r y
  proof -
    from that(2) obtain z where z: "z \<in> set l" "name z = name y" by auto
    then obtain v where v: "find (\<lambda>x. name x = name y) l = Some v"
      by (cases "find (\<lambda>x. name x = name y) l") (auto simp: find_None_iff)
    then have "find (\<lambda>x. name x = name y) (l @ r) = Some v"
      by (rule find_append_Some)
    then have "v = y" using f [OF that(1)] by simp
    then show ?thesis using v by (auto simp: find_Some_iff)
  qed
  let ?local = "loadLocalServers (templates denv) ts"
  have dl: "distinct (map name ?local)"
    using loadLocalServers_inv [of "templates denv" ts] by simp
  have b: "source y = ''built-in''" if "y \<in> set ?local" for y
    using that loadLocalServers_inv [of "templates denv" ts] by (auto simp: list_all_iff)
  have disc: "res = deduplicateServers (localeCompare denv) ?local fetched
          \<and> distinct (map name res)
          \<and> set ?local \<subseteq> set res
          \<and> (\<forall>r\<in>set fetched. name r \<in> name ` set ?local \<longrightarrow> r \<notin> set res)
          \<and> (\<forall>r\<in>set res. name r \<in> name ` set ?local
                \<longrightarrow> r \<in> set ?local \<and> source r = ''built-in'')
          \<and> name ` set res = name ` set ?local \<union> name ` set fetched"
    if h1: "discoverServers denv ts options = After w res"
      and h2: "remoteServers denv ts options = After w' fetched"
  proof -
    have e: "res = deduplicateServers (localeCompare denv) ?local fetched"
      using h1 h2 by (simp add: discoverServers_After)
    have rs: "source y = ''remote''" if "y \<in> set fetched" for y
      using that remoteServers_source [OF h2] by (auto simp: list_all_iff)
    have 4: "y \<notin> set res" if "y \<in> set fetched" "name y \<in> name ` set ?local" for y
    proof
      assume "y \<in> set res"
      then have "y \<in> set ?local" using loc that(2) e by blast
      then have "source y = ''built-in''" by (rule b)
      then show False using rs [OF that(1)] by simp
    qed
    have 5: "y \<in> set ?local \<and> source y = ''built-in''"
      if "y \<in> set res" "name y \<in> name ` set ?local" for y
      using that loc b e by blast
    show ?thesis
      using e d [of "localeCompare denv" ?local fetched] k [OF dl, of "localeCompare denv" fetched]
        n [of "localeCompare denv" ?local fetched] 4 5
      by blast
  qed
  have c1: "distinct (map name (deduplicateServers lc local remote))"
    by (rule d)
  have c2: "set (deduplicateServers lc local remote)
       = {r \<in> set (local @ remote). find (\<lambda>x. name x = name r) (local @ remote) = Some r}"
    by (rule s)
  have c3: "name ` set (deduplicateServers lc local remote) = name ` set local \<union> name ` set remote"
    by (rule n)
  have c4: "\<forall>r\<in>set (deduplicateServers lc local remote).
         find (\<lambda>x. name x = name r) (local @ remote) = Some r"
    using f by blast
  have c5: "distinct (map name local) \<longrightarrow> set local \<subseteq> set (deduplicateServers lc local remote)"
    using k by blast
  have c6: "\<forall>r\<in>set (deduplicateServers lc local remote).
         name r \<in> name ` set local \<longrightarrow> r \<in> set local"
    using loc by blast
  have c7: "discoverServers denv ts options = After w res
        \<and> remoteServers denv ts options = After w' fetched \<longrightarrow>
          res = deduplicateServers (localeCompare denv) ?local fetched
          \<and> distinct (map name res)
          \<and> set ?local \<subseteq> set res
          \<and> (\<forall>r\<in>set fetched. name r \<in> name ` set ?local \<longrightarrow> r \<notin> set res)
          \<and> (\<forall>r\<in>set res. name r \<in> name ` set ?local
                \<longrightarrow> r \<in> set ?local \<and> source r = ''built-in'')
          \<and> name ` set res = name ` set ?local \<union> name ` set fetched"
  proof
    assume h: "discoverServers denv ts options = After w res
        \<and> remoteServers denv ts options = After w' fetched"
    show "res = deduplicateServers (localeCompare denv) ?local fetched
          \<and> distinct (map name res)
          \<and> set ?local \<subseteq> set res
          \<and> (\<forall>r\<in>set fetched. name r \<in> name ` set ?local \<longrightarrow> r \<notin> set res)
          \<and> (\<forall>r\<in>set res. name r \<in> name ` set ?local
                \<longrightarrow> r \<in> set ?local \<and> source r = ''built-in'')
          \<and> name ` set res = name ` set ?local \<union> name ` set fetched"
      using h disc by (elim conjE)
  qed
  show ?thesis
    by (rule conjI c1 c2 c3 c4 c5 c6 c7)+
qed

theorem local_entries_win_witness:
  "discoverServers
      (test_env \<lparr>respondsAfterMs = Some 120,
                 reply = HttpResponse 200 (Some 30) (BodyServers remote_payload)\<rparr>)
      [''UNIVERSAL''] (Some test_options)
     = After 150 [entryToRecommendation local_forgecraft ''built-in'',
                  entryToRecommendation (remote_payload ! 1) ''remote'']
   \<and> remoteServers
      (test_env \<lparr>respondsAfterMs = Some 120,
                 reply = HttpResponse 200 (Some 30) (BodyServers remote_payload)\<rparr>)
      [''UNIVERSAL''] (Some test_options)
     = After 150 (map (\<lambda>e. entryToRecommendation e ''remote'') remote_payload)
   \<and> entryToRecommendation local_forgecraft ''built-in''
       \<in> set [entryToRecommendation local_forgecraft ''built-in'',
              entryToRecommendation (remote_payload ! 1) ''remote'']
   \<and> entryToRecommendation (remote_payload ! 0) ''remote''
       \<notin> set [entryToRecommendation local_forgecraft ''built-in'',
              entryToRecommendation (remote_payload ! 1) ''remote'']
   \<and> name (entryToRecommendation (remote_payload ! 0) ''remote'')
       = name (entryToRecommendation local_forgecraft ''built-in'')"
  (is "?D = After 150 ?res \<and> ?R = After 150 ?fetched \<and> ?l \<in> set ?res \<and> ?r \<notin> set ?res \<and> ?N")
proof -
  let ?env = "test_env \<lparr>respondsAfterMs = Some 120,
                 reply = HttpResponse 200 (Some 30) (BodyServers remote_payload)\<rparr>"
  let ?local = "loadLocalServers (templates ?env) [''UNIVERSAL'']"
  have h1: "?D = After 150 ?res" by code_simp
  have h2: "?R = After 150 ?fetched" by code_simp
  have l: "?l \<in> set ?local" by code_simp
  have r: "?r \<in> set ?fetched" by code_simp
  have nm: "name ?r \<in> name ` set ?local" by code_simp
  have n: ?N by code_simp
  from local_entries_win [of "\<lambda>a b. 0" "[]" "[]" ?env "[''UNIVERSAL'']" "Some test_options"
      150 ?res 150 ?fetched] h1 h2
  have t: "set ?local \<subseteq> set ?res
           \<and> (\<forall>r\<in>set ?fetched. name r \<in> name ` set ?local \<longrightarrow> r \<notin> set ?res)"
    by blast
  from t l have a: "?l \<in> set ?res" by blast
  from t r nm have b: "?r \<notin> set ?res" by blast
  show ?thesis using h1 h2 a b n by blast
qed

text \<open>
  The failures that \<open>fetchRemoteServers\<close> catches. With \<open>includeRemote\<close> set, when no
  registry URL is configured or the remote fetch fails (no answer within the timeout,
  which is the option's or 5000 ms, a network error, a status outside 200..299, a body
  that has arrived and is not JSON or has no \<open>servers\<close> array), \<open>discoverServers\<close>
  returns the local recommendations, sorted, as it does without remote discovery; and
  when the failure is there before the body is read, it returns within the timeout.
\<close>

lemma fetchRemoteServers_failure:
  "remote_failure reg T \<Longrightarrow> \<exists>w. fetchRemoteServers reg ts T = After w []"
  by (auto simp: remote_failure_def fetchRemoteServers_def fetchRemoteServers_try_def fetch_def
      response_json_def read_servers_def
      split: option.splits http_reply.splits response_body.splits)

lemma fetchRemoteServers_bounded:
  "fetchRemoteServers reg ts T = After w rs \<Longrightarrow>
     w \<le> T \<or> (\<exists>t d status body. respondsAfterMs reg = Some t \<and> t < T
                 \<and> reply reg = HttpResponse status (Some d) body
                 \<and> 200 \<le> status \<and> status \<le> 299 \<and> w = t + d)"
  by (auto simp: fetchRemoteServers_def fetchRemoteServers_try_def fetch_def response_json_def
      split: option.splits http_reply.splits if_splits)

lemma remote_failure_gives_local_only:
  assumes "includeRemote opts = Some True"
    and "registryUrl denv opts = [] \<or>
         remote_failure (registry_at denv (registryUrl denv opts)) (timeoutMs opts)"
  shows "\<exists>w. discoverServers denv ts (Some opts)
               = After w (sort_by (compareServers (localeCompare denv))
                            (loadLocalServers (templates denv) ts))
             \<and> discoverServers denv ts None
               = After 0 (sort_by (compareServers (localeCompare denv))
                            (loadLocalServers (templates denv) ts))"
proof -
  let ?local = "loadLocalServers (templates denv) ts"
  have "\<exists>w. remoteServers denv ts (Some opts) = After w []"
  proof (cases "registryUrl denv opts = []")
    case True
    then show ?thesis using assms(1) by (simp add: remoteServers_def)
  next
    case False
    then have "remote_failure (registry_at denv (registryUrl denv opts)) (timeoutMs opts)"
      using assms(2) by simp
    then obtain w where
      "fetchRemoteServers (registry_at denv (registryUrl denv opts)) ts (timeoutMs opts) = After w []"
      using fetchRemoteServers_failure by blast
    then show ?thesis using assms(1) False by (simp add: remoteServers_def)
  qed
  then obtain w where r: "remoteServers denv ts (Some opts) = After w []"
    by blast
  have "first_of_name {} ?local = ?local"
    using loadLocalServers_inv [of "templates denv" ts] by (simp add: first_of_name_distinct)
  then have e: "deduplicateServers (localeCompare denv) ?local []
                  = sort_by (compareServers (localeCompare denv)) ?local"
    by (simp add: deduplicateServers_eq)
  have 1: "discoverServers denv ts (Some opts)
             = After w (sort_by (compareServers (localeCompare denv)) ?local)"
    by (simp add: discoverServers_def r e)
  have 2: "discoverServers denv ts None
             = After 0 (sort_by (compareServers (localeCompare denv)) ?local)"
    by (simp add: discoverServers_def remoteServers_def e)
  show ?thesis using 1 2 by blast
qed

text \<open>
  The wait for the body has no end of its own. When the registry sends a status in
  200..299 and the headers before the timer fires and the body never becomes complete,
  \<open>discoverServers\<close> does not return, whatever the timeout is.
\<close>

lemma stalled_body:
  assumes "includeRemote opts = Some True" and "registryUrl denv opts \<noteq> []"
    and "respondsAfterMs (registry_at denv (registryUrl denv opts)) = Some t"
    and "t < timeoutMs opts"
    and "reply (registry_at denv (registryUrl denv opts)) = HttpResponse status None body"
    and "200 \<le> status" and "status \<le> 299"
  shows "discoverServers denv ts (Some opts) = Never"
  using assms
  by (simp add: discoverServers_def remoteServers_def fetchRemoteServers_def
      fetchRemoteServers_try_def fetch_def response_json_def)

lemma test_run:
  "timeoutMs test_options = 5000"
  "registryUrl (test_env reg) test_options = ''https://example.com/registry.json''"
  "includeRemote test_options = Some True"
  "registry_at (test_env reg) u = reg"
  by (simp_all add: timeoutMs_def registryUrl_def test_options_def test_env_def
      DEFAULT_REMOTE_TIMEOUT_MS_def)

lemma test_read_servers:
  "read_servers [''UNIVERSAL''] (BodyServers remote_payload)
     = Inr (map (\<lambda>e. entryToRecommendation e ''remote'') remote_payload)"
  by code_simp

lemma test_deduplicate:
  "deduplicateServers (localeCompare (test_env reg))
      (loadLocalServers (templates (test_env reg)) [''UNIVERSAL'']) []
     = [entryToRecommendation local_forgecraft ''built-in'']"
  "deduplicateServers (localeCompare (test_env reg))
      (loadLocalServers (templates (test_env reg)) [''UNIVERSAL''])
      (map (\<lambda>e. entryToRecommendation e ''remote'') remote_payload)
     = [entryToRecommendation local_forgecraft ''built-in'',
        entryToRecommendation (remote_payload ! 1) ''remote'']"
  by code_simp+

text \<open>
  Claim C6. The tags \<open>[UNIVERSAL]\<close>, remote discovery on, the timeout left at its
  default of 5000 ms, and a registry that sends status 200 and its headers after 120 ms.
  When the body of that response never becomes complete, \<open>discoverServers\<close> never
  returns: no local results, no error. When the body is complete after 60000 ms,
  \<open>discoverServers\<close> returns after 60120 ms. When the headers themselves do not arrive,
  it returns the local recommendation after the 5000 ms of the timer.
\<close>

theorem stalled_body_blocks_discovery:
  "timeoutMs test_options = 5000
   \<and> discoverServers
        (test_env \<lparr>respondsAfterMs = Some 120,
                   reply = HttpResponse 200 None (BodyServers remote_payload)\<rparr>)
        [''UNIVERSAL''] (Some test_options)
      = Never
   \<and> discoverServers
        (test_env \<lparr>respondsAfterMs = Some 120,
                   reply = HttpResponse 200 (Some 60000) (BodyServers remote_payload)\<rparr>)
        [''UNIVERSAL''] (Some test_options)
      = After 60120 [entryToRecommendation local_forgecraft ''built-in'',
                     entryToRecommendation (remote_payload ! 1) ''remote'']
   \<and> discoverServers
        (test_env \<lparr>respondsAfterMs = None,
                   reply = HttpResponse 200 None (BodyServers remote_payload)\<rparr>)
        [''UNIVERSAL''] (Some test_options)
      = After 5000 [entryToRecommendation local_forgecraft ''built-in'']"
  (is "?T \<and> ?A \<and> ?B \<and> ?C")
proof -
  have t: ?T by (rule test_run(1))
  have a: ?A
    by (simp add: discoverServers_def remoteServers_def fetchRemoteServers_def
        fetchRemoteServers_try_def fetch_def response_json_def test_run)
  have b: ?B
    by (simp add: discoverServers_def remoteServers_def fetchRemoteServers_def
        fetchRemoteServers_try_def fetch_def response_json_def test_run test_read_servers
        test_deduplicate)
  have c: ?C
    by (simp add: discoverServers_def remoteServers_def fetchRemoteServers_def
        fetchRemoteServers_try_def fetch_def test_run test_deduplicate)
  show ?thesis using t a b c by (intro conjI)
qed

section \<open>Properties of the settings merge\<close>

lemma map_of_set_key: "map_of (set_key k v kvs) k' = (if k' = k then Some v else map_of kvs k')"
  by (induction kvs) auto

lemma map_of_spread:
  "distinct (map fst props) \<Longrightarrow>
   map_of (spread obj props) n = (case map_of props n of Some c \<Rightarrow> Some c | None \<Rightarrow> map_of obj n)"
proof (induction props arbitrary: obj)
  case Nil
  then show ?case by (simp add: spread_def)
next
  case (Cons kv props)
  obtain k v where kv: "kv = (k, v)" by (cases kv)
  have d: "distinct (map fst props)" and nk: "k \<notin> fst ` set props"
    using Cons.prems kv by simp_all
  have s: "spread obj ((k, v) # props) = spread (set_key k v obj) props"
    by (simp add: spread_def)
  have none: "map_of props k = None"
    using nk by (simp add: map_of_eq_None_iff)
  have ih: "map_of (spread (set_key k v obj) props) n
              = (case map_of props n of Some c \<Rightarrow> Some c | None \<Rightarrow> map_of (set_key k v obj) n)"
    by (rule Cons.IH [OF d])
  show ?case
  proof (cases "n = k")
    case True
    then show ?thesis using ih none by (simp add: s kv map_of_set_key)
  next
    case False
    then show ?thesis using ih by (simp add: s kv map_of_set_key split: option.splits)
  qed
qed

lemma same_value_zero_JStr:
  "list_ex (same_value_zero (JStr x)) (map JStr acc) \<longleftrightarrow> x \<in> set acc"
  by (induction acc) (auto simp: same_value_zero_def)

lemma foldl_js_set_strings:
  "distinct acc \<Longrightarrow>
   \<exists>us. foldl (\<lambda>acc x. if list_ex (same_value_zero x) acc then acc else acc @ [x])
          (map JStr acc) (map JStr xs) = map JStr us
        \<and> distinct us \<and> set us = set acc \<union> set xs"
proof (induction xs arbitrary: acc)
  case Nil
  then show ?case by auto
next
  case (Cons x xs)
  show ?case
  proof (cases "x \<in> set acc")
    case True
    then show ?thesis
      using Cons.IH [OF Cons.prems] by (auto simp: same_value_zero_JStr)
  next
    case False
    then have d: "distinct (acc @ [x])" using Cons.prems by simp
    show ?thesis
      using Cons.IH [OF d] False by (auto simp: same_value_zero_JStr)
  qed
qed

lemma js_set_strings:
  "\<exists>us. js_set (map JStr xs) = map JStr us \<and> distinct us \<and> set us = set xs"
  using foldl_js_set_strings [of "[]" xs] by (simp add: js_set_def)

lemma json_strings_Some: "json_strings xs = Some ss \<Longrightarrow> xs = map JStr ss"
proof (induction xs arbitrary: ss)
  case Nil
  then show ?case by (simp add: json_strings_def)
next
  case (Cons x xs)
  then show ?case
    by (cases x) (auto simp: json_strings_def split: if_splits)
qed

lemma existingPerms_eq:
  "old_perms existing = Some pk \<Longrightarrow>
   nullish_or (get_key existing ''permissions'') (JObj []) = JObj pk"
  by (auto simp: old_perms_def nullish_or_def split: option.splits json.splits)

lemma existingAllow_eq:
  "old_perms existing = Some pk \<Longrightarrow> old_allow existing = Some old \<Longrightarrow>
   iterate (nullish_or (get_key (JObj pk) ''allow'') (JArr [])) = Some (map JStr old)"
  by (auto simp: old_allow_def nullish_or_def get_key_def iterate_def
      dest: json_strings_Some split: option.splits json.splits)

lemma existingServers_eq:
  "old_servers existing = Some ms \<Longrightarrow>
   own_props (nullish_or (get_key existing ''mcpServers'') (JObj [])) = ms"
  by (auto simp: old_servers_def nullish_or_def own_props_def split: option.splits json.splits)

text \<open>
  Claim C9. For an existing settings record (an object whose \<open>permissions\<close>, \<open>allow\<close> and
  \<open>mcpServers\<close> have the types the source casts them to) and new server configurations
  with one entry for each name, the merged settings are an object in which: every
  top-level key other than \<open>permissions\<close> and \<open>mcpServers\<close> has its existing value;
  under \<open>mcpServers\<close> a newly configured server has its new configuration and every
  other existing server is kept; under \<open>permissions\<close> every key other than \<open>allow\<close> has
  its existing value, and \<open>allow\<close> is a list without duplicates of exactly the existing
  rules and the new rules.
\<close>

theorem settings_merge_precedence:
  assumes "existing = JObj kvs"
    and "old_perms existing = Some pk"
    and "old_allow existing = Some old"
    and "old_servers existing = Some ms"
    and "distinct (map fst mcpConfig)"
  shows "\<exists>out servers perms allow.
           merged_settings (Parsed existing) mcpConfig permissionRules = JObj out
           \<and> (\<forall>k. k \<noteq> ''permissions'' \<and> k \<noteq> ''mcpServers'' \<longrightarrow> map_of out k = map_of kvs k)
           \<and> map_of out ''mcpServers'' = Some (JObj servers)
           \<and> (\<forall>n. map_of servers n
                    = (case map_of mcpConfig n of Some c \<Rightarrow> Some c | None \<Rightarrow> map_of ms n))
           \<and> map_of out ''permissions'' = Some (JObj perms)
           \<and> (\<forall>k. k \<noteq> ''allow'' \<longrightarrow> map_of perms k = map_of pk k)
           \<and> map_of perms ''allow'' = Some (JArr (map JStr allow))
           \<and> distinct allow
           \<and> set allow = set old \<union> set permissionRules"
proof -
  obtain us where us: "js_set (map JStr (old @ permissionRules)) = map JStr us"
      "distinct us" "set us = set (old @ permissionRules)"
    using js_set_strings [of "old @ permissionRules"] by blast
  define perms where "perms = set_key ''allow'' (JArr (map JStr us)) pk"
  define servers where "servers = spread ms mcpConfig"
  define out where
    "out = set_key ''mcpServers'' (JObj servers) (set_key ''permissions'' (JObj perms) kvs)"
  have nn: "existing \<noteq> JNull" using assms(1) by simp
  have op: "own_props existing = kvs" using assms(1) by (simp add: own_props_def)
  have opk: "own_props (JObj pk) = pk" by (simp add: own_props_def)
  have "merged_try existing mcpConfig permissionRules = Some (JObj out)"
    using nn us(1)
    by (simp add: merged_try_def Let_def existingPerms_eq [OF assms(2)]
        existingAllow_eq [OF assms(2,3)] existingServers_eq [OF assms(4)] op opk
        out_def servers_def perms_def)
  then have 1: "merged_settings (Parsed existing) mcpConfig permissionRules = JObj out"
    by (simp add: merged_settings_def)
  have 2: "\<forall>k. k \<noteq> ''permissions'' \<and> k \<noteq> ''mcpServers'' \<longrightarrow> map_of out k = map_of kvs k"
    by (simp add: out_def map_of_set_key)
  have 3: "map_of out ''mcpServers'' = Some (JObj servers)"
    by (simp add: out_def map_of_set_key)
  have 4: "\<forall>n. map_of servers n
             = (case map_of mcpConfig n of Some c \<Rightarrow> Some c | None \<Rightarrow> map_of ms n)"
    by (simp add: servers_def map_of_spread [OF assms(5)])
  have 5: "map_of out ''permissions'' = Some (JObj perms)"
    by (simp add: out_def map_of_set_key)
  have 6: "\<forall>k. k \<noteq> ''allow'' \<longrightarrow> map_of perms k = map_of pk k"
    by (simp add: perms_def map_of_set_key)
  have 7: "map_of perms ''allow'' = Some (JArr (map JStr us))"
    by (simp add: perms_def map_of_set_key)
  have 8: "set us = set old \<union> set permissionRules" using us(3) by simp
  show ?thesis
    using 1 2 3 4 5 6 7 us(2) 8 by blast
qed

theorem settings_merge_precedence_witness:
  "old_perms (JObj test_existing_keys)
     = Some [(''deny'', JArr [JStr ''Bash(rm:*)'']),
             (''allow'', JArr [JStr ''mcp__forgecraft__*'', JStr ''Read''])]
   \<and> old_allow (JObj test_existing_keys) = Some [''mcp__forgecraft__*'', ''Read'']
   \<and> old_servers (JObj test_existing_keys)
     = Some [(''forgecraft'', JObj [(''command'', JStr ''old'')]),
             (''mine'', JObj [(''command'', JStr ''my-server'')])]
   \<and> distinct (map fst test_mcpConfig)
   \<and> (\<exists>out. merged_settings (Parsed (JObj test_existing_keys)) test_mcpConfig test_permissionRules
               = JObj out
             \<and> map_of out ''theme'' = Some (JStr ''dark''))
   \<and> merged_settings (Parsed (JObj test_existing_keys)) test_mcpConfig test_permissionRules
     = JObj
        [(''theme'', JStr ''dark''),
         (''permissions'',
            JObj [(''deny'', JArr [JStr ''Bash(rm:*)'']),
                  (''allow'', JArr [JStr ''mcp__forgecraft__*'', JStr ''Read'',
                                    JStr ''mcp__context7__*''])]),
         (''mcpServers'',
            JObj [(''forgecraft'',
                     JObj [(''command'', JStr ''npx''),
                           (''args'', JArr [JStr ''-y'', JStr ''forgecraft-mcp''])]),
                  (''mine'', JObj [(''command'', JStr ''my-server'')]),
                  (''context7'',
                     JObj [(''command'', JStr ''npx''),
                           (''args'', JArr [JStr ''-y'', JStr ''context7''])])])]"
  (is "?H2 \<and> ?H3 \<and> ?H4 \<and> ?H5 \<and> ?E \<and> ?V")
proof -
  have h2: ?H2 by code_simp
  have h3: ?H3 by code_simp
  have h4: ?H4 by code_simp
  have h5: ?H5 by code_simp
  have v: ?V by code_simp
  have t: "map_of test_existing_keys ''theme'' = Some (JStr ''dark'')" by code_simp
  have n: "''theme'' \<noteq> ''permissions'' \<and> ''theme'' \<noteq> ''mcpServers''" by simp
  from settings_merge_precedence [OF refl h2 h3 h4 h5, of test_permissionRules]
  obtain out where
    "merged_settings (Parsed (JObj test_existing_keys)) test_mcpConfig test_permissionRules = JObj out"
    "\<forall>k. k \<noteq> ''permissions'' \<and> k \<noteq> ''mcpServers'' \<longrightarrow> map_of out k = map_of test_existing_keys k"
    by blast
  with n t have ?E by auto
  with h2 h3 h4 h5 v show ?thesis by blast
qed

section \<open>Properties of the renderer\<close>

lemma name_char_facts:
  "is_name_char c \<Longrightarrow>
     \<not> is_space c \<and> c \<noteq> CHR ''{'' \<and> c \<noteq> CHR ''}'' \<and> c \<noteq> CHR ''|'' \<and> c \<noteq> CHR ''#'' \<and> c \<noteq> CHR ''/''"
  by (auto simp: is_name_char_def is_word_char_def is_space_def char_code_def)

lemma space_facts:
  "is_space c \<Longrightarrow>
     c \<noteq> CHR ''{'' \<and> c \<noteq> CHR ''}'' \<and> c \<noteq> CHR ''|'' \<and> c \<noteq> CHR ''#'' \<and> c \<noteq> CHR ''/''"
  by (auto simp: is_space_def)

lemma split_at_close_found:
  "CHR ''}'' \<notin> set body \<Longrightarrow> split_at_close (body @ ''}}'' @ post) = Some (body, post)"
proof (induction body)
  case Nil
  then show ?case by simp
next
  case (Cons c b)
  then have c: "c \<noteq> CHR ''}''" and ih: "split_at_close (b @ ''}}'' @ post) = Some (b, post)"
    by auto
  show ?case
  proof (cases b)
    case Nil
    then show ?thesis using c by auto
  next
    case (Cons d b')
    then show ?thesis using c ih by simp
  qed
qed

lemma dropWhile_spaces:
  "list_all is_space ws \<Longrightarrow> dropWhile is_space (ws @ t) = dropWhile is_space t"
  by (induction ws) auto

lemma trim_padded:
  assumes "list_all is_space ws1" and "list_all is_space ws2"
    and "x \<noteq> []" and "\<not> is_space (hd x)" and "\<not> is_space (last x)"
  shows "trim (ws1 @ x @ ws2) = x"
proof -
  have 1: "dropWhile is_space (ws1 @ x @ ws2) = x @ ws2"
    using assms(1,3,4) by (cases x) (simp_all add: dropWhile_spaces)
  have 2: "dropWhile is_space (rev ws2 @ rev x) = rev x"
  proof -
    have "list_all is_space (rev ws2)" using assms(2) by (simp add: list_all_iff)
    then have "dropWhile is_space (rev ws2 @ rev x) = dropWhile is_space (rev x)"
      by (rule dropWhile_spaces)
    moreover have "dropWhile is_space (rev x) = rev x"
      using assms(3,5) by (cases x rule: rev_cases) simp_all
    ultimately show ?thesis by simp
  qed
  show ?thesis by (simp add: trim_def 1 2)
qed

lemma name_ends:
  "nm \<noteq> [] \<Longrightarrow> list_all is_name_char nm \<Longrightarrow> \<not> is_space (hd nm) \<and> \<not> is_space (last nm)"
  by (metis hd_in_set last_in_set list_all_iff name_char_facts)

lemma takeWhile_no_bar:
  "CHR ''|'' \<notin> set x \<Longrightarrow> takeWhile (\<lambda>c. c \<noteq> CHR ''|'') (x @ t) = x @ takeWhile (\<lambda>c. c \<noteq> CHR ''|'') t"
  by (induction x) auto

lemma dropWhile_no_bar:
  "CHR ''|'' \<notin> set x \<Longrightarrow> dropWhile (\<lambda>c. c \<noteq> CHR ''|'') (x @ t) = dropWhile (\<lambda>c. c \<noteq> CHR ''|'') t"
  by (induction x) auto

lemma no_bar:
  assumes "list_all is_space ws1" and "list_all is_name_char nm" and "list_all is_space ws2"
  shows "CHR ''|'' \<notin> set (ws1 @ nm @ ws2)"
proof
  assume "CHR ''|'' \<in> set (ws1 @ nm @ ws2)"
  then consider "is_space (CHR ''|'')" | "is_name_char (CHR ''|'')"
    using assms by (auto simp: list_all_iff)
  then show False
  proof cases
    case 1
    then show ?thesis using space_facts [of "CHR ''|''"] by simp
  next
    case 2
    then show ?thesis using name_char_facts [of "CHR ''|''"] by simp
  qed
qed

lemma parse_placeholder_plain:
  assumes "nm \<noteq> []" and "list_all is_name_char nm"
    and "list_all is_space ws1" and "list_all is_space ws2"
  shows "parse_placeholder (ws1 @ nm @ ws2) = Some (nm, None)"
proof -
  have nb: "CHR ''|'' \<notin> set (ws1 @ nm @ ws2)" using assms by (intro no_bar)
  have t: "takeWhile (\<lambda>c. c \<noteq> CHR ''|'') (ws1 @ nm @ ws2) = ws1 @ nm @ ws2"
    using takeWhile_no_bar [OF nb, of "[]"] by simp
  have d: "dropWhile (\<lambda>c. c \<noteq> CHR ''|'') (ws1 @ nm @ ws2) = []"
    using dropWhile_no_bar [OF nb, of "[]"] by simp
  have tr: "trim (ws1 @ nm @ ws2) = nm"
    using assms name_ends [OF assms(1,2)] by (intro trim_padded) simp_all
  show ?thesis
    unfolding parse_placeholder_def t d tr using assms(1,2) by simp
qed

lemma parse_placeholder_default:
  assumes "nm \<noteq> []" and "list_all is_name_char nm"
    and "list_all is_space ws1" and "list_all is_space ws2"
    and "list_all is_space ws3" and "list_all is_space ws4" and "list_all is_space ws5"
    and "d \<noteq> []" and "\<not> is_space (hd d)" and "\<not> is_space (last d)"
  shows "parse_placeholder (ws1 @ nm @ ws2 @ ''|'' @ ws3 @ ''default:'' @ ws4 @ d @ ws5)
           = Some (nm, Some d)"
proof -
  define B where "B = ws1 @ nm @ ws2"
  define D where "D = ''default:'' @ ws4 @ d"
  define A where "A = ws3 @ D @ ws5"
  have body: "ws1 @ nm @ ws2 @ ''|'' @ ws3 @ ''default:'' @ ws4 @ d @ ws5 = B @ CHR ''|'' # A"
    by (simp add: B_def A_def D_def)
  have nb: "CHR ''|'' \<notin> set B" unfolding B_def using assms by (intro no_bar)
  have t: "takeWhile (\<lambda>c. c \<noteq> CHR ''|'') (B @ CHR ''|'' # A) = B"
    using takeWhile_no_bar [OF nb, of "CHR ''|'' # A"] by simp
  have dw: "dropWhile (\<lambda>c. c \<noteq> CHR ''|'') (B @ CHR ''|'' # A) = CHR ''|'' # A"
    using dropWhile_no_bar [OF nb, of "CHR ''|'' # A"] by simp
  have tr: "trim B = nm"
    unfolding B_def using assms name_ends [OF assms(1,2)] by (intro trim_padded) simp_all
  have ta: "trim A = D"
    unfolding A_def using assms by (intro trim_padded) (simp_all add: D_def is_space_def)
  have sw: "startsWith D ''default:''" by (simp add: D_def startsWith_def)
  have dr: "drop 8 D = ws4 @ d" by (simp add: D_def)
  have "trim (ws4 @ d @ []) = d"
    using assms by (intro trim_padded) simp_all
  then have td: "trim (ws4 @ d) = d" by simp
  show ?thesis
    unfolding body parse_placeholder_def
    using assms(1,2) by (simp add: t dw tr ta sw dr td)
qed

lemma substitute_text:
  "CHR ''{'' \<notin> set pre \<Longrightarrow> substitute ctx (pre @ t) = pre @ substitute ctx t"
  by (induction pre) (auto simp: startsWith_def)

lemma substitute_placeholder:
  assumes "CHR ''}'' \<notin> set body" and "parse_placeholder body = Some (nm, dflt)"
  shows "substitute ctx (''{{'' @ body @ ''}}'' @ post)
           = (case resolve ctx nm of
                Some v \<Rightarrow> v
              | None \<Rightarrow> (case dflt of Some d \<Rightarrow> d | None \<Rightarrow> ''{{'' @ body @ ''}}''))
             @ substitute ctx post"
  using split_at_close_found [OF assms(1), of post] assms(2)
  by (simp add: startsWith_def split: option.splits)

lemma parse_if_open_start:
  "parse_if_open s = Some r \<Longrightarrow> \<exists>u. s = CHR ''{'' # CHR ''{'' # CHR ''#'' # u"
  by (cases s rule: no_marker.cases)
     (auto simp: parse_if_open_def startsWith_def split: if_splits)

lemma close_start:
  "startsWith s ''{{/if}}'' \<Longrightarrow> \<exists>u. s = CHR ''{'' # CHR ''{'' # CHR ''/'' # u"
  by (cases s rule: no_marker.cases) (auto simp: startsWith_def)

lemma no_marker_tl: "no_marker (c # x) \<Longrightarrow> no_marker x"
  by (cases x rule: no_marker.cases) auto

lemma no_marker_head:
  assumes "no_marker (c # x)"
    and "y = [] \<or> startsWith y ''{{'' \<or> last (c # x) \<noteq> CHR ''{''"
  shows "\<not> (\<exists>m u. c # x @ y = CHR ''{'' # CHR ''{'' # m # u \<and> (m = CHR ''#'' \<or> m = CHR ''/''))"
proof (cases x)
  case Nil
  then show ?thesis
    using assms(2) by (cases y rule: no_marker.cases) (auto simp: startsWith_def)
next
  case (Cons b x')
  show ?thesis
  proof (cases x')
    case Nil
    then show ?thesis
      using assms(2) Cons by (cases y) (auto simp: startsWith_def)
  next
    case (Cons m x'')
    then show ?thesis
      using assms(1) \<open>x = b # x'\<close> by auto
  qed
qed

lemma strip_text:
  assumes "no_marker x"
    and "y = [] \<or> startsWith y ''{{'' \<or> x = [] \<or> last x \<noteq> CHR ''{''"
  shows "strip_conditionals ctx st (x @ y)
           = (if active st then x else []) @ strip_conditionals ctx st y"
  using assms
proof (induction x)
  case Nil
  then show ?case by simp
next
  case (Cons c x)
  have b: "y = [] \<or> startsWith y ''{{'' \<or> last (c # x) \<noteq> CHR ''{''"
    using Cons.prems(2) by simp
  have nh: "\<not> (\<exists>m u. c # x @ y = CHR ''{'' # CHR ''{'' # m # u \<and> (m = CHR ''#'' \<or> m = CHR ''/''))"
    using Cons.prems(1) b by (rule no_marker_head)
  have p: "parse_if_open (c # x @ y) = None"
  proof (cases "parse_if_open (c # x @ y)")
    case None
    then show ?thesis .
  next
    case (Some r)
    then show ?thesis using parse_if_open_start [OF Some] nh by blast
  qed
  have q: "\<not> startsWith (c # x @ y) ''{{/if}}''"
    using close_start [of "c # x @ y"] nh by blast
  have ih: "strip_conditionals ctx st (x @ y)
              = (if active st then x else []) @ strip_conditionals ctx st y"
  proof (rule Cons.IH)
    show "no_marker x" using Cons.prems(1) by (rule no_marker_tl)
    show "y = [] \<or> startsWith y ''{{'' \<or> x = [] \<or> last x \<noteq> CHR ''{''"
      using Cons.prems(2) by (cases x) auto
  qed
  have step: "strip_conditionals ctx st (c # x @ y)
          = (if active st then [c] else []) @ strip_conditionals ctx st (x @ y)"
    using p q by simp
  show ?case
    unfolding append_Cons step ih by (cases "active st") simp_all
qed

lemma no_brace_no_marker: "CHR ''{'' \<notin> set u \<Longrightarrow> no_marker u"
  by (induction u rule: no_marker.induct) auto

lemma no_marker_placeholder:
  assumes "CHR ''{'' \<notin> set u" and "u = [] \<or> (hd u \<noteq> CHR ''#'' \<and> hd u \<noteq> CHR ''/'')"
  shows "no_marker (CHR ''{'' # CHR ''{'' # u)"
proof (cases u)
  case Nil
  then show ?thesis by simp
next
  case (Cons h u')
  then have "no_marker (h # u')" using assms(1) no_brace_no_marker by blast
  then show ?thesis using assms Cons by (cases u') auto
qed

lemma strip_open:
  assumes "CHR ''}'' \<notin> set p"
  shows "strip_conditionals ctx st (''{{#if '' @ p @ ''}}'' @ t)
           = strip_conditionals ctx (eval_predicate ctx (trim p) # st) t"
proof -
  have nb: "CHR ''}'' \<notin> set (CHR '' '' # p)"
    using assms by simp
  have sp: "split_at_close ((CHR '' '' # p) @ ''}}'' @ t) = Some (CHR '' '' # p, t)"
    using nb by (rule split_at_close_found)
  have s: "is_space (CHR '' '')" by (simp add: is_space_def)
  have tr: "trim (CHR '' '' # p) = trim p"
    using s by (simp add: trim_def)
  have "parse_if_open (''{{#if '' @ p @ ''}}'' @ t) = Some (trim p, t)"
    using sp s by (simp add: parse_if_open_def startsWith_def tr)
  then show ?thesis by simp
qed

lemma strip_close:
  "strip_conditionals ctx (b # st) (''{{/if}}'' @ t) = strip_conditionals ctx st t"
proof -
  have "parse_if_open (''{{/if}}'' @ t) = None"
    by (simp add: parse_if_open_def startsWith_def)
  then show ?thesis by (simp add: startsWith_def)
qed

lemma active_simps: "active []" "active [b] = b"
  by (auto simp: active_def)

lemma strip_block:
  assumes "no_marker pre" and "no_marker inner" and "CHR ''}'' \<notin> set p"
  shows "strip_conditionals ctx [] (pre @ ''{{#if '' @ p @ ''}}'' @ inner @ ''{{/if}}'' @ post)
           = pre @ (if eval_predicate ctx (trim p) then inner else [])
             @ strip_conditionals ctx [] post"
proof -
  let ?v = "eval_predicate ctx (trim p)"
  have 1: "strip_conditionals ctx [] (pre @ ''{{#if '' @ p @ ''}}'' @ inner @ ''{{/if}}'' @ post)
             = pre @ strip_conditionals ctx [] (''{{#if '' @ p @ ''}}'' @ inner @ ''{{/if}}'' @ post)"
    using strip_text [OF assms(1), of "''{{#if '' @ p @ ''}}'' @ inner @ ''{{/if}}'' @ post" ctx "[]"]
    by (simp add: startsWith_def active_simps)
  have 2: "strip_conditionals ctx [] (''{{#if '' @ p @ ''}}'' @ inner @ ''{{/if}}'' @ post)
             = strip_conditionals ctx [?v] (inner @ ''{{/if}}'' @ post)"
    using assms(3) by (rule strip_open)
  have 3: "strip_conditionals ctx [?v] (inner @ ''{{/if}}'' @ post)
             = (if ?v then inner else []) @ strip_conditionals ctx [?v] (''{{/if}}'' @ post)"
    using strip_text [OF assms(2), of "''{{/if}}'' @ post" ctx "[?v]"]
    by (simp add: startsWith_def active_simps)
  have 4: "strip_conditionals ctx [?v] (''{{/if}}'' @ post) = strip_conditionals ctx [] post"
    by (rule strip_close)
  show ?thesis by (simp only: 1 2 3 4)
qed

lemma map_of_spellings:
  "map_of (concat (map (\<lambda>fv. [(fst fv, snd fv),
                              (separated (CHR ''_'') (fst fv), snd fv),
                              (separated (CHR ''-'') (fst fv), snd fv)]) fs)) nm
     = map_option snd
         (find (\<lambda>fv. nm = fst fv \<or> nm = separated (CHR ''_'') (fst fv)
                      \<or> nm = separated (CHR ''-'') (fst fv)) fs)"
  by (induction fs) auto

text \<open>
  Claim C4. In a template, a placeholder after text without braces is rendered as
  follows, and the rest of the template is rendered on its own. Without a default,
  \<open>{{name}}\<close> with any white space around the name becomes the value the name resolves
  to, and stays as it is written when the name does not resolve. With a default,
  \<open>{{name | default: value}}\<close> becomes the value the name resolves to, and exactly the
  default when the name does not resolve. A name resolves to the value of the first
  field of the context that it spells, in the native casing or with the words
  separated by underscores or hyphens.
\<close>

theorem placeholder_substitution:
  assumes "CHR ''{'' \<notin> set pre"
    and "nm \<noteq> []" and "list_all is_name_char nm"
    and "list_all is_space ws1" and "list_all is_space ws2"
    and "list_all is_space ws3" and "list_all is_space ws4" and "list_all is_space ws5"
    and "d \<noteq> []" and "\<not> is_space (hd d)" and "\<not> is_space (last d)"
    and "CHR ''{'' \<notin> set d" and "CHR ''}'' \<notin> set d"
  shows "renderTemplate (pre @ ''{{'' @ ws1 @ nm @ ws2 @ ''}}'' @ post) ctx
           = pre @ (case resolve ctx nm of
                      Some v \<Rightarrow> v
                    | None \<Rightarrow> ''{{'' @ ws1 @ nm @ ws2 @ ''}}'')
             @ renderTemplate post ctx
         \<and> renderTemplate
             (pre @ ''{{'' @ ws1 @ nm @ ws2 @ ''|'' @ ws3 @ ''default:'' @ ws4 @ d @ ws5 @ ''}}'' @ post)
             ctx
           = pre @ (case resolve ctx nm of Some v \<Rightarrow> v | None \<Rightarrow> d) @ renderTemplate post ctx
         \<and> resolve ctx nm
           = map_option snd
               (find (\<lambda>fv. nm = fst fv \<or> nm = separated (CHR ''_'') (fst fv)
                            \<or> nm = separated (CHR ''-'') (fst fv))
                  (context_fields ctx))"
proof -
  have general: "renderTemplate (pre @ ''{{'' @ body @ ''}}'' @ post) ctx
      = pre @ (case resolve ctx nm of
                 Some v \<Rightarrow> v
               | None \<Rightarrow> (case dflt of Some d \<Rightarrow> d | None \<Rightarrow> ''{{'' @ body @ ''}}''))
        @ renderTemplate post ctx"
    if ob: "CHR ''{'' \<notin> set body" and cb: "CHR ''}'' \<notin> set body"
      and hb: "body = [] \<or> (hd body \<noteq> CHR ''#'' \<and> hd body \<noteq> CHR ''/'')"
      and pp: "parse_placeholder body = Some (nm, dflt)" for body dflt
  proof -
    let ?S = "strip_conditionals ctx [] post"
    have nm: "no_marker (CHR ''{'' # CHR ''{'' # body @ ''}}'')"
      using ob hb by (intro no_marker_placeholder) (auto simp: hd_append)
    have 1: "strip_conditionals ctx [] (pre @ ''{{'' @ body @ ''}}'' @ post)
               = pre @ strip_conditionals ctx [] (''{{'' @ body @ ''}}'' @ post)"
      using strip_text [OF no_brace_no_marker [OF assms(1)], of "''{{'' @ body @ ''}}'' @ post" ctx "[]"]
      by (simp add: startsWith_def active_simps)
    have 2: "strip_conditionals ctx [] ((CHR ''{'' # CHR ''{'' # body @ ''}}'') @ post)
               = (CHR ''{'' # CHR ''{'' # body @ ''}}'') @ ?S"
      using strip_text [OF nm, of post ctx "[]"] by (simp add: active_simps)
    have st: "strip_conditionals ctx [] (pre @ ''{{'' @ body @ ''}}'' @ post)
            = pre @ ''{{'' @ body @ ''}}'' @ ?S"
      using 1 2 by simp
    have "renderTemplate (pre @ ''{{'' @ body @ ''}}'' @ post) ctx
            = substitute ctx (pre @ ''{{'' @ body @ ''}}'' @ ?S)"
      unfolding renderTemplate_def st ..
    also have "\<dots> = pre @ substitute ctx (''{{'' @ body @ ''}}'' @ ?S)"
      by (rule substitute_text [OF assms(1)])
    also have "substitute ctx (''{{'' @ body @ ''}}'' @ ?S)
        = (case resolve ctx nm of
             Some v \<Rightarrow> v
           | None \<Rightarrow> (case dflt of Some d \<Rightarrow> d | None \<Rightarrow> ''{{'' @ body @ ''}}''))
          @ substitute ctx ?S"
      by (rule substitute_placeholder [OF cb pp])
    finally show ?thesis
      unfolding renderTemplate_def .
  qed
  have sp: "c \<noteq> CHR ''{'' \<and> c \<noteq> CHR ''}'' \<and> c \<noteq> CHR ''#'' \<and> c \<noteq> CHR ''/''"
    if "c \<in> set (ws1 @ nm @ ws2 @ ws3 @ ws4 @ ws5)" for c
  proof -
    from that consider "is_space c" | "is_name_char c"
      using assms by (auto simp: list_all_iff)
    then show ?thesis using space_facts name_char_facts by cases blast+
  qed
  let ?b1 = "ws1 @ nm @ ws2"
  let ?b2 = "ws1 @ nm @ ws2 @ ''|'' @ ws3 @ ''default:'' @ ws4 @ d @ ws5"
  have h1: "hd ?b1 \<noteq> CHR ''#'' \<and> hd ?b1 \<noteq> CHR ''/''"
    using sp [of "hd ?b1"] assms(2) by (cases ws1) auto
  have h2: "hd ?b2 \<noteq> CHR ''#'' \<and> hd ?b2 \<noteq> CHR ''/''"
    using sp [of "hd ?b2"] assms(2) by (cases ws1) auto
  have o1: "CHR ''{'' \<notin> set ?b1" and c1: "CHR ''}'' \<notin> set ?b1"
    using sp by auto
  have o2: "CHR ''{'' \<notin> set ?b2" and c2: "CHR ''}'' \<notin> set ?b2"
    using sp assms(12,13) by auto
  have p1: "parse_placeholder ?b1 = Some (nm, None)"
    using assms by (intro parse_placeholder_plain)
  have p2: "parse_placeholder ?b2 = Some (nm, Some d)"
    using assms by (intro parse_placeholder_default)
  have g1: "renderTemplate (pre @ ''{{'' @ ws1 @ nm @ ws2 @ ''}}'' @ post) ctx
           = pre @ (case resolve ctx nm of
                      Some v \<Rightarrow> v
                    | None \<Rightarrow> ''{{'' @ ws1 @ nm @ ws2 @ ''}}'')
             @ renderTemplate post ctx"
    using general [OF o1 c1 disjI2 [OF h1] p1] by (simp split: option.splits)
  have g2: "renderTemplate
             (pre @ ''{{'' @ ws1 @ nm @ ws2 @ ''|'' @ ws3 @ ''default:'' @ ws4 @ d @ ws5 @ ''}}'' @ post)
             ctx
           = pre @ (case resolve ctx nm of Some v \<Rightarrow> v | None \<Rightarrow> d) @ renderTemplate post ctx"
    using general [OF o2 c2 disjI2 [OF h2] p2] by (simp split: option.splits)
  have g3: "resolve ctx nm
           = map_option snd
               (find (\<lambda>fv. nm = fst fv \<or> nm = separated (CHR ''_'') (fst fv)
                            \<or> nm = separated (CHR ''-'') (fst fv))
                  (context_fields ctx))"
    by (simp only: resolve_def variables_def map_of_spellings)
  show ?thesis using g1 g2 g3 by blast
qed

theorem placeholder_substitution_witness:
  "CHR ''{'' \<notin> set ''Max: ''
   \<and> list_all is_name_char ''max_lines'' \<and> list_all is_name_char ''project_name''
   \<and> list_all is_space '' ''
   \<and> resolve makeContext ''max_lines'' = None
   \<and> resolve makeContext ''project_name'' = Some ''TestProject''
   \<and> renderTemplate ''Max: {{max_lines}}'' makeContext = ''Max: {{max_lines}}''
   \<and> renderTemplate ''Max: {{max_lines | default: 300}}'' makeContext = ''Max: 300''
   \<and> renderTemplate ''Max: {{ project_name }}'' makeContext = ''Max: TestProject''"
  (is "?P \<and> ?N1 \<and> ?N2 \<and> ?W \<and> ?R1 \<and> ?R2 \<and> ?A \<and> ?B \<and> ?C")
proof -
  have p: ?P by simp
  have n1: ?N1 and n1': "''max_lines'' \<noteq> []" by code_simp+
  have n2: ?N2 and n2': "''project_name'' \<noteq> []" by code_simp+
  have w: ?W and e: "list_all is_space []" by code_simp+
  have d: "''300'' \<noteq> []" "\<not> is_space (hd ''300'')" "\<not> is_space (last ''300'')"
    "CHR ''{'' \<notin> set ''300''" "CHR ''}'' \<notin> set ''300''"
    by code_simp+
  have r1: ?R1 by code_simp
  have r2: ?R2 by code_simp
  have z: "renderTemplate [] makeContext = []" by (simp add: renderTemplate_def)
  from placeholder_substitution [OF p n1' n1 e e w w e d, of "[]" makeContext]
  have "renderTemplate (''Max: '' @ ''{{'' @ [] @ ''max_lines'' @ [] @ ''}}'' @ []) makeContext
          = ''Max: '' @ (case resolve makeContext ''max_lines'' of
                           Some v \<Rightarrow> v
                         | None \<Rightarrow> ''{{'' @ [] @ ''max_lines'' @ [] @ ''}}'')
            @ renderTemplate [] makeContext"
    by blast
  then have a: ?A by (simp add: r1 z)
  from placeholder_substitution [OF p n1' n1 e w w w e d, of "[]" makeContext]
  have "renderTemplate
           (''Max: '' @ ''{{'' @ [] @ ''max_lines'' @ '' '' @ ''|'' @ '' '' @ ''default:'' @ '' '' @ ''300''
              @ [] @ ''}}'' @ []) makeContext
          = ''Max: '' @ (case resolve makeContext ''max_lines'' of Some v \<Rightarrow> v | None \<Rightarrow> ''300'')
            @ renderTemplate [] makeContext"
    by blast
  then have b: ?B by (simp add: r1 z)
  from placeholder_substitution [OF p n2' n2 w w w w e d, of "[]" makeContext]
  have "renderTemplate (''Max: '' @ ''{{'' @ '' '' @ ''project_name'' @ '' '' @ ''}}'' @ []) makeContext
          = ''Max: '' @ (case resolve makeContext ''project_name'' of
                           Some v \<Rightarrow> v
                         | None \<Rightarrow> ''{{'' @ '' '' @ ''project_name'' @ '' '' @ ''}}'')
            @ renderTemplate [] makeContext"
    by blast
  then have c: ?C by (simp add: r2 z)
  show ?thesis using p n1 n2 w r1 r2 a b c by blast
qed

text \<open>
  Claim C5. A conditional block \<open>{{#if p}}inner{{/if}}\<close> after text \<open>pre\<close>, for any
  predicate text \<open>p\<close> without a closing brace, where neither \<open>pre\<close> nor \<open>inner\<close> holds the
  beginning of a conditional marker or ends with an opening brace: when the predicate
  is true the template renders as the template without the two markers (so the inner
  text is kept and its placeholders are substituted), when it is false as the template
  without the whole block; what follows the block is rendered as it would be without
  the block, and the inner text may run over several lines. The predicate is true only
  when it is one of the two known ones and the language is the one it names; with any
  other predicate text the block is removed whole, markers and inner text.
\<close>

theorem conditional_block:
  assumes "no_marker pre" and "pre = [] \<or> last pre \<noteq> CHR ''{''"
    and "no_marker inner" and "inner = [] \<or> last inner \<noteq> CHR ''{''"
    and "CHR ''}'' \<notin> set p"
  shows "renderTemplate (pre @ ''{{#if '' @ p @ ''}}'' @ inner @ ''{{/if}}'' @ post) ctx
           = (if eval_predicate ctx (trim p) then renderTemplate (pre @ inner @ post) ctx
              else renderTemplate (pre @ post) ctx)
         \<and> (eval_predicate ctx (trim p)
              \<longleftrightarrow> trim p = ''language_is_typescript'' \<and> language ctx = ''typescript''
                \<or> trim p = ''language_is_python'' \<and> language ctx = ''python'')
         \<and> (trim p \<noteq> ''language_is_typescript'' \<and> trim p \<noteq> ''language_is_python''
              \<longrightarrow> \<not> eval_predicate ctx (trim p)
                \<and> renderTemplate (pre @ ''{{#if '' @ p @ ''}}'' @ inner @ ''{{/if}}'' @ post) ctx
                  = renderTemplate (pre @ post) ctx)"
proof -
  let ?v = "eval_predicate ctx (trim p)"
  have b: "strip_conditionals ctx [] (pre @ ''{{#if '' @ p @ ''}}'' @ inner @ ''{{/if}}'' @ post)
             = pre @ (if ?v then inner else []) @ strip_conditionals ctx [] post"
    using assms(1,3,5) by (rule strip_block)
  have a: "active []" by (simp add: active_def)
  have i: "strip_conditionals ctx [] (inner @ post) = inner @ strip_conditionals ctx [] post"
    using strip_text [OF assms(3), of post ctx "[]"] assms(4) a by simp
  have k: "strip_conditionals ctx [] (pre @ t) = pre @ strip_conditionals ctx [] t" for t
    using strip_text [OF assms(1), of t ctx "[]"] assms(2) a by simp
  have t1: "strip_conditionals ctx [] (pre @ inner @ post)
              = pre @ inner @ strip_conditionals ctx [] post"
    using k [of "inner @ post"] i by simp
  have t2: "strip_conditionals ctx [] (pre @ post) = pre @ strip_conditionals ctx [] post"
    by (rule k)
  have 1: "renderTemplate (pre @ ''{{#if '' @ p @ ''}}'' @ inner @ ''{{/if}}'' @ post) ctx
           = (if ?v then renderTemplate (pre @ inner @ post) ctx
              else renderTemplate (pre @ post) ctx)"
    unfolding renderTemplate_def b t1 t2 by (cases ?v) simp_all
  have 2: "?v \<longleftrightarrow> trim p = ''language_is_typescript'' \<and> language ctx = ''typescript''
                \<or> trim p = ''language_is_python'' \<and> language ctx = ''python''"
    by (simp add: eval_predicate_def)
  have 3: "\<not> ?v" if "trim p \<noteq> ''language_is_typescript'' \<and> trim p \<noteq> ''language_is_python''"
    using that 2 by blast
  have 4: "renderTemplate (pre @ ''{{#if '' @ p @ ''}}'' @ inner @ ''{{/if}}'' @ post) ctx
             = renderTemplate (pre @ post) ctx"
    if "trim p \<noteq> ''language_is_typescript'' \<and> trim p \<noteq> ''language_is_python''"
    using 3 [OF that] 1 by simp
  show ?thesis using 1 2 3 4 by blast
qed

theorem conditional_block_witness:
  "renderTemplate ''before {{#if language_is_typescript}}TS content{{/if}} after'' makeContext
       = ''before TS content after''
   \<and> renderTemplate ''before {{#if language_is_typescript}}TS content{{/if}} after''
        (makeContext\<lparr>language := ''python''\<rparr>)
       = ''before  after''
   \<and> renderTemplate ''a{{#if language-is-python}}PY{{/if}}b'' (makeContext\<lparr>language := ''python''\<rparr>)
       = ''ab''
   \<and> renderTemplate ''a{{#if }}PY{{/if}}b'' makeContext = ''ab''
   \<and> renderTemplate (''{{#if language_is_typescript}}Name:'' @ [NL] @ ''{{projectName}}{{/if}}'')
        makeContext
       = ''Name:'' @ [NL] @ ''TestProject''"
  (is "?A \<and> ?B \<and> ?C \<and> ?D \<and> ?E")
proof -
  let ?py = "makeContext\<lparr>language := ''python''\<rparr>"
  have m1: "no_marker ''before ''" and l1: "''before '' = [] \<or> last ''before '' \<noteq> CHR ''{''"
    by code_simp+
  have m2: "no_marker ''TS content''"
    and l2: "''TS content'' = [] \<or> last ''TS content'' \<noteq> CHR ''{''"
    by code_simp+
  have c1: "CHR ''}'' \<notin> set ''language_is_typescript''" by simp
  have t1: "trim ''language_is_typescript'' = ''language_is_typescript''" by code_simp
  have v1: "renderTemplate (''before '' @ ''TS content'' @ '' after'') makeContext
              = ''before TS content after''" by code_simp
  have v2: "renderTemplate (''before '' @ '' after'') ?py = ''before  after''" by code_simp
  from conditional_block [OF m1 l1 m2 l2 c1, of "'' after''" makeContext] v1
  have a: ?A by (simp add: t1 makeContext_def)
  from conditional_block [OF m1 l1 m2 l2 c1, of "'' after''" ?py] v2
  have b: ?B by (simp add: t1 makeContext_def)
  have m3: "no_marker ''a''" and l3: "''a'' = [] \<or> last ''a'' \<noteq> CHR ''{''" by code_simp+
  have m4: "no_marker ''PY''" and l4: "''PY'' = [] \<or> last ''PY'' \<noteq> CHR ''{''" by code_simp+
  have c2: "CHR ''}'' \<notin> set ''language-is-python''" by simp
  have u2: "trim ''language-is-python'' \<noteq> ''language_is_typescript''
            \<and> trim ''language-is-python'' \<noteq> ''language_is_python''" by code_simp
  have v3: "renderTemplate (''a'' @ ''b'') ?py = ''ab''" by code_simp
  from conditional_block [OF m3 l3 m4 l4 c2, of "''b''" ?py] u2
  have "renderTemplate (''a'' @ ''{{#if '' @ ''language-is-python'' @ ''}}'' @ ''PY'' @ ''{{/if}}'' @ ''b'') ?py
          = renderTemplate (''a'' @ ''b'') ?py"
    by blast
  with v3 have c: ?C by simp
  have c3: "CHR ''}'' \<notin> set ''''" by simp
  have u3: "trim '''' \<noteq> ''language_is_typescript'' \<and> trim '''' \<noteq> ''language_is_python''"
    by code_simp
  have v4: "renderTemplate (''a'' @ ''b'') makeContext = ''ab''" by code_simp
  from conditional_block [OF m3 l3 m4 l4 c3, of "''b''" makeContext] u3
  have "renderTemplate (''a'' @ ''{{#if '' @ '''' @ ''}}'' @ ''PY'' @ ''{{/if}}'' @ ''b'') makeContext
          = renderTemplate (''a'' @ ''b'') makeContext"
    by blast
  with v4 have d: ?D by simp
  have m5: "no_marker []" and l5: "[] = [] \<or> last [] \<noteq> CHR ''{''" by simp_all
  have m6: "no_marker (''Name:'' @ [NL] @ ''{{projectName}}'')"
    and l6: "''Name:'' @ [NL] @ ''{{projectName}}'' = []
             \<or> last (''Name:'' @ [NL] @ ''{{projectName}}'') \<noteq> CHR ''{''"
    by code_simp+
  have v5: "renderTemplate ([] @ (''Name:'' @ [NL] @ ''{{projectName}}'') @ []) makeContext
              = ''Name:'' @ [NL] @ ''TestProject''" by code_simp
  from conditional_block [OF m5 l5 m6 l6 c1, of "[]" makeContext] v5
  have e: ?E by (simp add: t1 makeContext_def)
  show ?thesis using a b c d e by blast
qed

end
